theory Spec2Isabelle
  imports Main "HOL-Library.Word" "HOL-Library.AList"
begin

section \<open>Index ranges (synclive/range.go)\<close>

text \<open>
  \<^verbatim>\<open>type SliceRanges [][2]int64\<close>: a range is a pair of signed 64-bit integers,
  compared as signed values (\<open><s\<close>, \<open>\<le>s\<close>); \<open>+\<close> and \<open>-\<close> wrap as in Go.
\<close>

type_synonym int64 = "64 word"
type_synonym SliceRanges = "(int64 \<times> int64) list"

text \<open>\<^verbatim>\<open>Valid\<close>: the loop returns false at the first range with \<open>end < start\<close> or \<open>start < 0\<close>.\<close>

fun Valid :: "SliceRanges \<Rightarrow> bool" where
  "Valid [] = True"
| "Valid (sr # r) =
     (if snd sr <s fst sr then False
      else if fst sr <s 0 then False
      else Valid r)"

subsection \<open>Delta\<close>

text \<open>
  A Go \<^verbatim>\<open>map[[2]int64]bool\<close> is an association list with distinct keys:
  \<open>m[k] = true\<close> is \<open>AList.update k True m\<close>, a read of a missing key gives the zero
  value \<open>false\<close>, and \<^verbatim>\<open>for k := range m\<close> visits every key once. Go leaves the order
  of that visit open; the model visits in insertion order, and every statement below is
  about the sets of the results and their freedom from repetition only.
\<close>

type_synonym rangeSet = "((int64 \<times> int64) \<times> bool) list"

fun fillMap :: "SliceRanges \<Rightarrow> rangeSet \<Rightarrow> rangeSet" where
  "fillMap [] m = m"
| "fillMap (startEnd # r) m = fillMap r (AList.update startEnd True m)"

definition mapGet :: "rangeSet \<Rightarrow> int64 \<times> int64 \<Rightarrow> bool" where
  "mapGet m k = (case map_of m k of None \<Rightarrow> False | Some b \<Rightarrow> b)"

text \<open>The first loop of \<^verbatim>\<open>Delta\<close>, over the keys of \<open>olds\<close>; the state is \<open>(same, removed)\<close>.\<close>

fun deltaOlds ::
  "rangeSet \<Rightarrow> (int64 \<times> int64) list \<Rightarrow> SliceRanges \<times> SliceRanges \<Rightarrow> SliceRanges \<times> SliceRanges"
where
  "deltaOlds news [] (same, removed) = (same, removed)"
| "deltaOlds news (oldStartEnd # ks) (same, removed) =
     (if mapGet news oldStartEnd then deltaOlds news ks (same @ [oldStartEnd], removed)
      else deltaOlds news ks (same, removed @ [oldStartEnd]))"

text \<open>The second loop, over the keys of \<open>news\<close>; the state is \<open>added\<close>.\<close>

fun deltaNews :: "rangeSet \<Rightarrow> (int64 \<times> int64) list \<Rightarrow> SliceRanges \<Rightarrow> SliceRanges" where
  "deltaNews olds [] added = added"
| "deltaNews olds (newStartEnd # ks) added =
     (if mapGet olds newStartEnd then deltaNews olds ks added
      else deltaNews olds ks (added @ [newStartEnd]))"

text \<open>\<^verbatim>\<open>r.Delta(next)\<close> returns \<open>(added, removed, same)\<close>.\<close>

definition Delta :: "SliceRanges \<Rightarrow> SliceRanges \<Rightarrow> SliceRanges \<times> SliceRanges \<times> SliceRanges" where
  "Delta r next =
     (let olds = fillMap r [];
          news = fillMap next [];
          (same, removed) = deltaOlds news (map fst olds) ([], []);
          added = deltaNews olds (map fst news) []
      in (added, removed, same))"

subsection \<open>SliceInto\<close>

text \<open>
  \<^verbatim>\<open>Subslicer\<close> is an interface; \<open>SliceInto\<close> takes its two methods as parameters.
  \<open>Subslice\<close> returns \<open>None\<close> where the implementation panics.
  \<open>capIndex\<close> is the range cap the loop body applies to \<open>sr[0]\<close> and to \<open>sr[1]\<close>:
  \<^verbatim>\<open>if sr[i] >= sliceLen { sr[i] = sliceLen - 1 }\<close>.
\<close>

definition capIndex :: "int64 \<Rightarrow> int64 \<Rightarrow> int64" where
  "capIndex sliceLen i = (if sliceLen \<le>s i then sliceLen - 1 else i)"

fun SliceIntoLoop ::
  "('s \<Rightarrow> int64) \<Rightarrow> ('s \<Rightarrow> int64 \<Rightarrow> int64 \<Rightarrow> 's option) \<Rightarrow> 's \<Rightarrow> SliceRanges \<Rightarrow> 's list
    \<Rightarrow> 's list option"
where
  "SliceIntoLoop Len Subslice sl [] result = Some result"
| "SliceIntoLoop Len Subslice sl (sr # r) result =
     (let sliceLen = Len sl;
          sr0 = capIndex sliceLen (fst sr);
          sr1 = capIndex sliceLen (snd sr)
      in case Subslice sl sr0 (sr1 + 1) of
           None \<Rightarrow> None
         | Some subslice \<Rightarrow> SliceIntoLoop Len Subslice sl r (result @ [subslice]))"

definition SliceInto ::
  "('s \<Rightarrow> int64) \<Rightarrow> ('s \<Rightarrow> int64 \<Rightarrow> int64 \<Rightarrow> 's option) \<Rightarrow> SliceRanges \<Rightarrow> 's \<Rightarrow> 's list option"
where
  "SliceInto Len Subslice r sl = SliceIntoLoop Len Subslice sl r []"

text \<open>
  Modelled from the spec: the implementations of \<^verbatim>\<open>Subslicer\<close> are not among the
  sources. The spec speaks of a sequence and of its closed-open slice \<open>[i, j)\<close>; this
  is the Go slice, whose \<^verbatim>\<open>s[i:j]\<close> panics unless \<open>0 \<le> i \<le> j \<le> len(s)\<close>.
\<close>

definition seqLen :: "'a list \<Rightarrow> int64" where
  "seqLen xs = word_of_nat (length xs)"

definition seqSubslice :: "'a list \<Rightarrow> int64 \<Rightarrow> int64 \<Rightarrow> 'a list option" where
  "seqSubslice xs i j =
     (if 0 \<le> sint i \<and> sint i \<le> sint j \<and> sint j \<le> int (length xs)
      then Some (take (nat (sint j) - nat (sint i)) (drop (nat (sint i)) xs))
      else None)"

section \<open>The dispatcher (sync3 dispatcher)\<close>

subsection \<open>Events, receipts and receivers\<close>

text \<open>
  Modelled from the spec: \<^verbatim>\<open>json.RawMessage\<close> as \<^verbatim>\<open>caches.NewEventData\<close> reads it (the
  parser is not among the sources). The spec gives the payload an event type, an optional
  state key and a content view with a lookup of a field by name; \<open>contentGetStr\<close> is
  \<^verbatim>\<open>Content.Get(name).Str\<close>, the empty string for a missing field.
\<close>

record RawMessage =
  msgType :: string
  msgStateKey :: "string option"
  msgContent :: "(string \<times> string) list"

definition contentGetStr :: "(string \<times> string) list \<Rightarrow> string \<Rightarrow> string" where
  "contentGetStr content name = (case map_of content name of None \<Rightarrow> [] | Some v \<Rightarrow> v)"

text \<open>
  Modelled from the spec: \<^verbatim>\<open>caches.EventData\<close> and its constructor (package
  \<^verbatim>\<open>caches\<close> is not among the sources): room, event type, optional state key, content
  view, stream position, the two counts and the \<open>ForceInitial\<close> flag; a fresh value has
  zero counts and the flag unset.
\<close>

record EventData =
  Event :: RawMessage
  RoomID :: string
  EventType :: string
  StateKey :: "string option"
  Content :: "(string \<times> string) list"
  NID :: int64
  JoinCount :: int
  InviteCount :: int
  ForceInitial :: bool

definition NewEventData :: "RawMessage \<Rightarrow> string \<Rightarrow> int64 \<Rightarrow> EventData" where
  "NewEventData event roomID nid =
     \<lparr>Event = event, RoomID = roomID, EventType = msgType event, StateKey = msgStateKey event,
      Content = msgContent event, NID = nid, JoinCount = 0, InviteCount = 0,
      ForceInitial = False\<rparr>"

text \<open>\<^verbatim>\<open>internal.Receipt\<close>: the dispatcher reads the room only.\<close>

record Receipt =
  receiptRoomID :: string
  receiptBody :: string

text \<open>
  A value of the interface \<^verbatim>\<open>Receiver\<close>: the nil interface, or a pointer of one of the
  dynamic types the dispatcher tells apart by type assertion (\<open>None\<close> is the nil pointer
  of that type), or any other implementation.
\<close>

datatype Receiver =
  NilReceiver
  | GlobalCache "nat option"
  | UserCache "nat option"
  | OtherReceiver nat

text \<open>
  What the dispatcher does to the outside: the method it calls on a receiver, and the
  lines it logs. \<open>Invoke userID r c\<close> is the call \<open>c\<close> on the receiver \<open>r\<close> that was
  found (or installed) under the key \<open>userID\<close>. An \<open>OnNewEventCall\<close> carries the
  pointer that is passed and the value it points to at the time of the call.
\<close>

datatype Call =
  OnNewEventCall nat EventData
  | OnReceiptCall Receipt
  | OnEphemeralEventCall string RawMessage
  | OnRegisteredCall
  | OnInvalidateRoomCall string
  | OnLeftRoomCall string RawMessage
  | OnInviteCall string "RawMessage list"

datatype Effect =
  Invoke string Receiver Call
  | LogWarn string
  | LogError string

datatype 'a outcome = Returned 'a | Panicked

subsection \<open>The membership tracker\<close>

text \<open>
  Modelled from the spec: \<^verbatim>\<open>JoinedRoomsTracker\<close> is not among the sources. The spec
  (4.1 and the data model) gives every pair of a room and a user exactly one membership
  state; the tracker keeps, per room, the users in state Joined and those in state
  Invited, and a user in neither is NotMember or Left. The two lists stand for sets:
  every query removes repetitions first, and the order of a list is the order in which
  the set is visited, which Go leaves open.
\<close>

record JoinedRoomsTracker =
  joinedUsers :: "string \<Rightarrow> string list"
  invitedUsers :: "string \<Rightarrow> string list"

definition NewJoinedRoomsTracker :: JoinedRoomsTracker where
  "NewJoinedRoomsTracker = \<lparr>joinedUsers = (\<lambda>_. []), invitedUsers = (\<lambda>_. [])\<rparr>"

text \<open>
  \<open>UsersJoinedRoom\<close>: every user becomes Joined (and so is no longer Invited); the result
  says whether any of them was not Joined before.
\<close>

definition UsersJoinedRoom ::
  "JoinedRoomsTracker \<Rightarrow> string list \<Rightarrow> string \<Rightarrow> bool \<times> JoinedRoomsTracker"
where
  "UsersJoinedRoom t userIDs roomID =
     (list_ex (\<lambda>u. u \<notin> set (joinedUsers t roomID)) userIDs,
      t\<lparr>joinedUsers := (joinedUsers t)
           (roomID := joinedUsers t roomID @
              filter (\<lambda>u. u \<notin> set (joinedUsers t roomID)) (remdups userIDs)),
        invitedUsers := (invitedUsers t)
           (roomID := filter (\<lambda>u. u \<notin> set userIDs) (invitedUsers t roomID))\<rparr>)"

definition UserJoinedRoom ::
  "JoinedRoomsTracker \<Rightarrow> string \<Rightarrow> string \<Rightarrow> bool \<times> JoinedRoomsTracker"
where
  "UserJoinedRoom t userID roomID = UsersJoinedRoom t [userID] roomID"

text \<open>\<open>UserLeftRoom\<close>: the user is neither Joined nor Invited afterwards; idempotent.\<close>

definition UserLeftRoom :: "JoinedRoomsTracker \<Rightarrow> string \<Rightarrow> string \<Rightarrow> JoinedRoomsTracker" where
  "UserLeftRoom t userID roomID =
     t\<lparr>joinedUsers := (joinedUsers t) (roomID := removeAll userID (joinedUsers t roomID)),
       invitedUsers := (invitedUsers t) (roomID := removeAll userID (invitedUsers t roomID))\<rparr>"

text \<open>\<open>UsersInvitedToRoom\<close>: every user becomes Invited (and so is no longer Joined).\<close>

definition UsersInvitedToRoom ::
  "JoinedRoomsTracker \<Rightarrow> string list \<Rightarrow> string \<Rightarrow> JoinedRoomsTracker"
where
  "UsersInvitedToRoom t userIDs roomID =
     t\<lparr>invitedUsers := (invitedUsers t)
           (roomID := invitedUsers t roomID @
              filter (\<lambda>u. u \<notin> set (invitedUsers t roomID)) (remdups userIDs)),
       joinedUsers := (joinedUsers t)
           (roomID := filter (\<lambda>u. u \<notin> set userIDs) (joinedUsers t roomID))\<rparr>"

definition NumInvitedUsersForRoom :: "JoinedRoomsTracker \<Rightarrow> string \<Rightarrow> int" where
  "NumInvitedUsersForRoom t roomID = int (length (remdups (invitedUsers t roomID)))"

text \<open>
  \<open>JoinedUsersForRoom\<close>: the joined users the filter accepts, and the count of all
  joined users. \<open>None\<close> is the nil filter, which the dispatcher passes where it reads the
  count only.
\<close>

definition JoinedUsersForRoom ::
  "JoinedRoomsTracker \<Rightarrow> string \<Rightarrow> (string \<Rightarrow> bool) option \<Rightarrow> string list \<times> int"
where
  "JoinedUsersForRoom t roomID flt =
     (filter (case flt of None \<Rightarrow> (\<lambda>_. True) | Some f \<Rightarrow> f) (remdups (joinedUsers t roomID)),
      int (length (remdups (joinedUsers t roomID))))"

text \<open>
  \<open>ReloadMembershipsForRoom\<close>: the room's membership becomes the two given sets; a user
  in both is Joined.
\<close>

definition ReloadMembershipsForRoom ::
  "JoinedRoomsTracker \<Rightarrow> string \<Rightarrow> string list \<Rightarrow> string list \<Rightarrow> JoinedRoomsTracker"
where
  "ReloadMembershipsForRoom t roomID joined invited =
     t\<lparr>joinedUsers := (joinedUsers t) (roomID := remdups joined),
       invitedUsers := (invitedUsers t)
           (roomID := filter (\<lambda>u. u \<notin> set joined) (remdups invited))\<rparr>"

subsection \<open>The dispatcher's state\<close>

text \<open>
  \<open>Dispatcher\<close> is the struct: the tracker and the registry (a Go map; the mutex is left
  out, every method runs alone). \<open>Machine\<close> adds what the methods also act on: the heap
  of \<open>EventData\<close> objects (a pointer is a position in the list, allocation appends) and
  the trace of effects, in program order. Calls of \<^verbatim>\<open>internal.Logf\<close> are tracing only
  and are left out.
\<close>

record Dispatcher =
  jrt :: JoinedRoomsTracker
  userToReceiver :: "string \<rightharpoonup> Receiver"

record Machine = Dispatcher +
  heap :: "EventData list"
  trace :: "Effect list"

definition DispatcherAllUsers :: string where
  "DispatcherAllUsers = ''-''"

definition NewDispatcher :: Machine where
  "NewDispatcher =
     \<lparr>jrt = NewJoinedRoomsTracker, userToReceiver = Map.empty, heap = [], trace = []\<rparr>"

text \<open>The index expression \<^verbatim>\<open>d.userToReceiver[userID]\<close>: nil for a missing key.\<close>

definition receiverAt :: "(string \<rightharpoonup> Receiver) \<Rightarrow> string \<Rightarrow> Receiver" where
  "receiverAt m userID = (case m userID of None \<Rightarrow> NilReceiver | Some r \<Rightarrow> r)"

definition ReceiverForUser :: "Machine \<Rightarrow> string \<Rightarrow> Receiver" where
  "ReceiverForUser s userID = receiverAt (userToReceiver s) userID"

definition Unregister :: "Machine \<Rightarrow> string \<Rightarrow> Machine" where
  "Unregister s userID = s\<lparr>userToReceiver := (userToReceiver s) (userID := None)\<rparr>"

text \<open>
  \<open>Register\<close>: \<open>OnRegistered\<close> is code of the receiver; its result is the parameter
  \<open>hook\<close> (\<open>None\<close> is the nil error). A method call on the nil interface panics.
\<close>

definition Register ::
  "(Receiver \<Rightarrow> string option) \<Rightarrow> Machine \<Rightarrow> string \<Rightarrow> Receiver \<Rightarrow> string option outcome \<times> Machine"
where
  "Register hook s userID r =
     (let s1 = (if userToReceiver s userID \<noteq> None
                then s\<lparr>trace := trace s @ [LogWarn ''Dispatcher.Register: receiver already registered'']\<rparr>
                else s);
          s2 = s1\<lparr>userToReceiver := (userToReceiver s1) (userID \<mapsto> r)\<rparr>
      in if r = NilReceiver then (Panicked, s2)
         else (Returned (hook r), s2\<lparr>trace := trace s2 @ [Invoke userID r OnRegisteredCall]\<rparr>))"

text \<open>
  The filter every audience computation passes to \<open>JoinedUsersForRoom\<close> (the same
  closure, written out four times in the source).
\<close>

definition audienceFilter :: "Machine \<Rightarrow> string \<Rightarrow> bool" where
  "audienceFilter s userID =
     (if userID = DispatcherAllUsers then False
      else ReceiverForUser s userID \<noteq> NilReceiver)"

subsection \<open>notifyListeners\<close>

text \<open>
  The loop over the per-user listeners; the state is \<open>(notifiedTarget, s)\<close>. \<open>ed\<close> is
  the pointer to the event data; \<^verbatim>\<open>edd := *ed\<close> is a new object for every listener.
\<close>

fun notifyLoop ::
  "nat \<Rightarrow> string \<Rightarrow> bool \<Rightarrow> string list \<Rightarrow> bool \<times> Machine \<Rightarrow> bool \<times> Machine"
where
  "notifyLoop ed targetUser shouldForceInitial [] (notifiedTarget, s) = (notifiedTarget, s)"
| "notifyLoop ed targetUser shouldForceInitial (userID # userIDs) (notifiedTarget, s) =
     (let l = receiverAt (userToReceiver s) userID
      in if l \<noteq> NilReceiver then
           let edd = heap s ! ed;
               notifiedTarget1 = (if targetUser = userID then True else notifiedTarget);
               edd1 = (if targetUser = userID \<and> shouldForceInitial
                       then edd\<lparr>ForceInitial := True\<rparr> else edd);
               eddPtr = length (heap s)
           in notifyLoop ed targetUser shouldForceInitial userIDs
                (notifiedTarget1,
                 s\<lparr>heap := heap s @ [edd1],
                   trace := trace s @ [Invoke userID l (OnNewEventCall eddPtr edd1)]\<rparr>)
         else notifyLoop ed targetUser shouldForceInitial userIDs (notifiedTarget, s))"

definition notifyListeners ::
  "Machine \<Rightarrow> nat \<Rightarrow> string list \<Rightarrow> string \<Rightarrow> bool \<Rightarrow> string \<Rightarrow> Machine"
where
  "notifyListeners s ed userIDs targetUser shouldForceInitial membership =
     (let listener = receiverAt (userToReceiver s) DispatcherAllUsers;
          s1 = (if listener \<noteq> NilReceiver
                then s\<lparr>trace := trace s @
                        [Invoke DispatcherAllUsers listener (OnNewEventCall ed (heap s ! ed))]\<rparr>
                else s);
          (notifiedTarget, s2) = notifyLoop ed targetUser shouldForceInitial userIDs (False, s1)
      in if targetUser \<noteq> [] \<and> \<not> notifiedTarget then
           if membership \<noteq> ''invite'' then
             let s3 = (if shouldForceInitial
                       then s2\<lparr>heap := (heap s2) [ed := (heap s2 ! ed)\<lparr>ForceInitial := True\<rparr>]\<rparr>
                       else s2);
                 l = receiverAt (userToReceiver s3) targetUser
             in if l \<noteq> NilReceiver
                then s3\<lparr>trace := trace s3 @ [Invoke targetUser l (OnNewEventCall ed (heap s3 ! ed))]\<rparr>
                else s3
           else s2
         else s2)"

subsection \<open>OnNewEvent\<close>

text \<open>
  The statement \<^verbatim>\<open>switch membership\<close> of \<open>OnNewEvent\<close>: the tracker after it, and
  whether the join forces an initial sync.
\<close>

definition switchMembership ::
  "JoinedRoomsTracker \<Rightarrow> string \<Rightarrow> string \<Rightarrow> string \<Rightarrow> bool \<times> JoinedRoomsTracker"
where
  "switchMembership t membership targetUser roomID =
     (if membership = ''invite'' then (False, UsersInvitedToRoom t [targetUser] roomID)
      else if membership = ''join'' then
        (let (joined, t1) = UserJoinedRoom t targetUser roomID
         in if joined then (True, t1) else (False, t1))
      else if membership = ''ban'' \<or> membership = ''leave''
      then (False, UserLeftRoom t targetUser roomID)
      else (False, t))"

definition OnNewEvent :: "Machine \<Rightarrow> string \<Rightarrow> RawMessage \<Rightarrow> int64 \<Rightarrow> Machine" where
  "OnNewEvent s roomID event nid =
     (let ed = length (heap s);
          s0 = s\<lparr>heap := heap s @ [NewEventData event roomID nid]\<rparr>;
          e = heap s0 ! ed;
          (targetUser, membership, shouldForceInitial, s1) =
            (case (if EventType e = ''m.room.member'' then StateKey e else None) of
               None \<Rightarrow> ([], [], False, s0)
             | Some targetUser \<Rightarrow>
                 let membership = contentGetStr (Content e) ''membership'';
                     (shouldForceInitial, t) =
                       switchMembership (jrt s0) membership targetUser (RoomID e);
                     inviteCount = NumInvitedUsersForRoom t (RoomID e)
                 in (targetUser, membership, shouldForceInitial,
                     s0\<lparr>jrt := t, heap := (heap s0) [ed := e\<lparr>InviteCount := inviteCount\<rparr>]\<rparr>));
          (userIDs, joinCount) =
            JoinedUsersForRoom (jrt s1) (RoomID (heap s1 ! ed)) (Some (audienceFilter s1));
          s2 = s1\<lparr>heap := (heap s1) [ed := (heap s1 ! ed)\<lparr>JoinCount := joinCount\<rparr>]\<rparr>
      in notifyListeners s2 ed userIDs targetUser shouldForceInitial membership)"

subsection \<open>OnNewInitialRoomState\<close>

text \<open>
  The first loop of the bulk path; the state is \<open>(s, eventDatas, joined, invited)\<close>,
  \<open>eventDatas\<close> holding the pointers in the order of \<open>state\<close>.
\<close>

fun initialStateLoop ::
  "string \<Rightarrow> RawMessage list \<Rightarrow> Machine \<times> nat list \<times> string list \<times> string list
    \<Rightarrow> Machine \<times> nat list \<times> string list \<times> string list"
where
  "initialStateLoop roomID [] acc = acc"
| "initialStateLoop roomID (event # state) (s, eventDatas, joined, invited) =
     (let ed = length (heap s);
          s1 = s\<lparr>heap := heap s @ [NewEventData event roomID 0]\<rparr>;
          e = heap s1 ! ed;
          (joined1, invited1) =
            (case (if EventType e = ''m.room.member'' then StateKey e else None) of
               None \<Rightarrow> (joined, invited)
             | Some stateKey \<Rightarrow>
                 let membership = contentGetStr (Content e) ''membership''
                 in if membership = ''invite'' then (joined, invited @ [stateKey])
                    else if membership = ''join'' then (joined @ [stateKey], invited)
                    else (joined, invited))
      in initialStateLoop roomID state (s1, eventDatas @ [ed], joined1, invited1))"

text \<open>The second loop of the bulk path, over the pointers in \<open>eventDatas\<close>.\<close>

fun initialNotifyLoop ::
  "int \<Rightarrow> int \<Rightarrow> string list \<Rightarrow> bool \<Rightarrow> nat list \<Rightarrow> Machine \<Rightarrow> Machine"
where
  "initialNotifyLoop inviteCount joinCount userIDs forceInitial [] s = s"
| "initialNotifyLoop inviteCount joinCount userIDs forceInitial (ed # eventDatas) s =
     (let s1 = s\<lparr>heap := (heap s) [ed := (heap s ! ed)\<lparr>InviteCount := inviteCount\<rparr>]\<rparr>;
          s2 = s1\<lparr>heap := (heap s1) [ed := (heap s1 ! ed)\<lparr>JoinCount := joinCount\<rparr>]\<rparr>
      in initialNotifyLoop inviteCount joinCount userIDs forceInitial eventDatas
           (notifyListeners s2 ed userIDs [] forceInitial []))"

text \<open>The loop of the degraded path: every state event goes through \<open>OnNewEvent\<close>.\<close>

fun replayLoop :: "string \<Rightarrow> RawMessage list \<Rightarrow> Machine \<Rightarrow> Machine" where
  "replayLoop roomID [] s = s"
| "replayLoop roomID (ev # state) s = replayLoop roomID state (OnNewEvent s roomID ev 0)"

definition OnNewInitialRoomState :: "Machine \<Rightarrow> string \<Rightarrow> RawMessage list \<Rightarrow> Machine" where
  "OnNewInitialRoomState s roomID state =
     (let (_, jc) = JoinedUsersForRoom (jrt s) roomID None
      in if jc > 0 then
           replayLoop roomID state
             (s\<lparr>trace := trace s @
                 [LogWarn ''OnNewInitialRoomState but have entries in JoinedRoomsTracker already, this should be impossible. Degrading to live events'']\<rparr>)
         else
           let (s1, eventDatas, joined, invited) = initialStateLoop roomID state (s, [], [], []);
               (forceInitial, t1) = UsersJoinedRoom (jrt s1) joined roomID;
               t2 = UsersInvitedToRoom t1 invited roomID;
               s2 = s1\<lparr>jrt := t2\<rparr>;
               inviteCount = NumInvitedUsersForRoom (jrt s2) roomID;
               (userIDs, joinCount) = JoinedUsersForRoom (jrt s2) roomID (Some (audienceFilter s2))
           in initialNotifyLoop inviteCount joinCount userIDs forceInitial eventDatas s2)"

subsection \<open>OnEphemeralEvent and OnReceipt\<close>

text \<open>The loop both methods end with: \<open>c\<close> is the call every listener gets.\<close>

fun pokeLoop :: "Call \<Rightarrow> string list \<Rightarrow> Machine \<Rightarrow> Machine" where
  "pokeLoop c [] s = s"
| "pokeLoop c (userID # notifyUserIDs) s =
     (let l = receiverAt (userToReceiver s) userID
      in if l = NilReceiver then pokeLoop c notifyUserIDs s
         else pokeLoop c notifyUserIDs (s\<lparr>trace := trace s @ [Invoke userID l c]\<rparr>))"

definition OnEphemeralEvent :: "Machine \<Rightarrow> string \<Rightarrow> RawMessage \<Rightarrow> Machine" where
  "OnEphemeralEvent s roomID ephEvent =
     (let (notifyUserIDs, _) = JoinedUsersForRoom (jrt s) roomID (Some (audienceFilter s));
          listener = receiverAt (userToReceiver s) DispatcherAllUsers;
          s1 = (if listener \<noteq> NilReceiver
                then s\<lparr>trace := trace s @
                        [Invoke DispatcherAllUsers listener (OnEphemeralEventCall roomID ephEvent)]\<rparr>
                else s)
      in pokeLoop (OnEphemeralEventCall roomID ephEvent) notifyUserIDs s1)"

definition OnReceipt :: "Machine \<Rightarrow> Receipt \<Rightarrow> Machine" where
  "OnReceipt s receipt =
     (let (notifyUserIDs, _) =
            JoinedUsersForRoom (jrt s) (receiptRoomID receipt) (Some (audienceFilter s));
          listener = receiverAt (userToReceiver s) DispatcherAllUsers;
          s1 = (if listener \<noteq> NilReceiver
                then s\<lparr>trace := trace s @ [Invoke DispatcherAllUsers listener (OnReceiptCall receipt)]\<rparr>
                else s)
      in pokeLoop (OnReceiptCall receipt) notifyUserIDs s1)"

subsection \<open>OnInvalidateRoom\<close>

text \<open>
  The three maps are association lists in the order Go visits them. The type assertion
  \<^verbatim>\<open>receiver.(*caches.UserCache)\<close> has the one-result form: it panics unless the
  interface holds a \<^verbatim>\<open>*caches.UserCache\<close>, and gives the pointer (possibly nil) otherwise.
\<close>

fun leavesLoop :: "string \<Rightarrow> (string \<times> RawMessage) list \<Rightarrow> Machine \<Rightarrow> unit outcome \<times> Machine" where
  "leavesLoop roomID [] s = (Returned (), s)"
| "leavesLoop roomID ((userID, leaveEvent) # leaves) s =
     (case receiverAt (userToReceiver s) userID of
        NilReceiver \<Rightarrow> leavesLoop roomID leaves s
      | UserCache uc \<Rightarrow>
          if uc \<noteq> None
          then leavesLoop roomID leaves
                 (s\<lparr>trace := trace s @ [Invoke userID (UserCache uc) (OnLeftRoomCall roomID leaveEvent)]\<rparr>)
          else leavesLoop roomID leaves s
      | _ \<Rightarrow> (Panicked, s))"

fun invitesLoop ::
  "string \<Rightarrow> (string \<times> RawMessage list) list \<Rightarrow> Machine \<Rightarrow> unit outcome \<times> Machine"
where
  "invitesLoop roomID [] s = (Returned (), s)"
| "invitesLoop roomID ((userID, inviteState) # invites) s =
     (case receiverAt (userToReceiver s) userID of
        NilReceiver \<Rightarrow> invitesLoop roomID invites s
      | UserCache uc \<Rightarrow>
          if uc \<noteq> None
          then invitesLoop roomID invites
                 (s\<lparr>trace := trace s @ [Invoke userID (UserCache uc) (OnInviteCall roomID inviteState)]\<rparr>)
          else invitesLoop roomID invites s
      | _ \<Rightarrow> (Panicked, s))"

fun joinsLoop :: "(string \<times> nat) list \<Rightarrow> Machine \<Rightarrow> Machine" where
  "joinsLoop [] s = s"
| "joinsLoop ((userID, joinData) # joins) s =
     (let receiver = receiverAt (userToReceiver s) userID
      in if receiver = NilReceiver then joinsLoop joins s
         else joinsLoop joins
                (s\<lparr>trace := trace s @
                    [Invoke userID receiver (OnNewEventCall joinData (heap s ! joinData))]\<rparr>))"

text \<open>
  \<^verbatim>\<open>gc := receiver.(*caches.GlobalCache)\<close> is the one-result type assertion as well: on
  the nil interface (no receiver under the global key) and on any other dynamic type it
  panics, before the test \<^verbatim>\<open>gc == nil\<close> is reached.
\<close>

definition OnInvalidateRoom ::
  "Machine \<Rightarrow> string \<Rightarrow> (string \<times> nat) list \<Rightarrow> (string \<times> RawMessage list) list
    \<Rightarrow> (string \<times> RawMessage) list \<Rightarrow> unit outcome \<times> Machine"
where
  "OnInvalidateRoom s roomID joins invites leaves =
     (case receiverAt (userToReceiver s) DispatcherAllUsers of
        GlobalCache gc \<Rightarrow>
          if gc = None
          then (Returned (), s\<lparr>trace := trace s @ [LogError ''No receiver for global cache'']\<rparr>)
          else
            let s1 = s\<lparr>trace := trace s @
                       [Invoke DispatcherAllUsers (GlobalCache gc) (OnInvalidateRoomCall roomID)]\<rparr>;
                s2 = s1\<lparr>jrt := ReloadMembershipsForRoom (jrt s1) roomID (map fst joins) (map fst invites)\<rparr>
            in (case leavesLoop roomID leaves s2 of
                  (Panicked, s3) \<Rightarrow> (Panicked, s3)
                | (Returned _, s3) \<Rightarrow>
                    (case invitesLoop roomID invites s3 of
                       (Panicked, s4) \<Rightarrow> (Panicked, s4)
                     | (Returned _, s4) \<Rightarrow> (Returned (), joinsLoop joins s4)))
      | _ \<Rightarrow> (Panicked, s))"

subsection \<open>Notions for stating what a dispatch does\<close>

text \<open>
  None of these is code of the dispatcher: they name the parts of its trace.
  \<open>subscribed\<close> keeps the users with a receiver, \<open>audience\<close> is the list
  \<open>JoinedUsersForRoom\<close> returns under \<open>audienceFilter\<close>, \<open>copyFor\<close> is the value of the
  copy a user gets, \<open>loopCalls\<close> are the calls of the loop over the audience (the copies
  are allocated from \<open>p\<close> on), \<open>globalCalls\<close> is the call on the global receiver if
  there is one, \<open>fallbackCalls\<close> is the direct call on the target user's receiver,
  \<open>memberTarget\<close> and \<open>membershipOf\<close> are the state key and the membership of a
  membership event.
\<close>

definition subscribed :: "(string \<rightharpoonup> Receiver) \<Rightarrow> string list \<Rightarrow> string list" where
  "subscribed reg userIDs = filter (\<lambda>u. receiverAt reg u \<noteq> NilReceiver) userIDs"

definition copyFor :: "string \<Rightarrow> bool \<Rightarrow> EventData \<Rightarrow> string \<Rightarrow> EventData" where
  "copyFor targetUser shouldForceInitial e userID =
     (if targetUser = userID \<and> shouldForceInitial then e\<lparr>ForceInitial := True\<rparr> else e)"

definition loopCalls ::
  "(string \<rightharpoonup> Receiver) \<Rightarrow> string \<Rightarrow> bool \<Rightarrow> EventData \<Rightarrow> nat \<Rightarrow> string list \<Rightarrow> Effect list"
where
  "loopCalls reg targetUser shouldForceInitial e p userIDs =
     map (\<lambda>(q, u). Invoke u (receiverAt reg u) (OnNewEventCall q (copyFor targetUser shouldForceInitial e u)))
       (enumerate p userIDs)"

definition globalCalls :: "(string \<rightharpoonup> Receiver) \<Rightarrow> Call \<Rightarrow> Effect list" where
  "globalCalls reg c =
     (if receiverAt reg DispatcherAllUsers \<noteq> NilReceiver
      then [Invoke DispatcherAllUsers (receiverAt reg DispatcherAllUsers) c] else [])"

definition fallbackActive :: "string list \<Rightarrow> string \<Rightarrow> string \<Rightarrow> bool" where
  "fallbackActive audience targetUser membership =
     (targetUser \<noteq> [] \<and> targetUser \<notin> set audience \<and> membership \<noteq> ''invite'')"

definition fallbackCalls ::
  "(string \<rightharpoonup> Receiver) \<Rightarrow> nat \<Rightarrow> EventData \<Rightarrow> string list \<Rightarrow> string \<Rightarrow> bool \<Rightarrow> string \<Rightarrow> Effect list"
where
  "fallbackCalls reg ed e audience targetUser shouldForceInitial membership =
     (if fallbackActive audience targetUser membership \<and> receiverAt reg targetUser \<noteq> NilReceiver
      then [Invoke targetUser (receiverAt reg targetUser)
              (OnNewEventCall ed (if shouldForceInitial then e\<lparr>ForceInitial := True\<rparr> else e))]
      else [])"

definition audience :: "(string \<rightharpoonup> Receiver) \<Rightarrow> JoinedRoomsTracker \<Rightarrow> string \<Rightarrow> string list" where
  "audience reg t roomID =
     filter (\<lambda>u. u \<noteq> DispatcherAllUsers \<and> receiverAt reg u \<noteq> NilReceiver)
       (remdups (joinedUsers t roomID))"

definition joinCountOf :: "JoinedRoomsTracker \<Rightarrow> string \<Rightarrow> int" where
  "joinCountOf t roomID = int (length (remdups (joinedUsers t roomID)))"

definition memberTarget :: "RawMessage \<Rightarrow> string option" where
  "memberTarget ev = (if msgType ev = ''m.room.member'' then msgStateKey ev else None)"

definition membershipOf :: "RawMessage \<Rightarrow> string" where
  "membershipOf ev = contentGetStr (msgContent ev) ''membership''"

text \<open>
  More notions of the same kind. \<open>dispatchTrace\<close> is all that one \<open>notifyListeners\<close>
  adds to the trace. \<open>globalFirst g ev seg\<close> says of a stretch of the trace that it
  starts with the call of \<open>OnNewEvent\<close> on the global receiver \<open>g\<close> and holds calls of
  \<open>OnNewEvent\<close> for the event \<open>ev\<close> only. \<open>delivered\<close> lists the calls of
  \<open>OnNewEvent\<close> in a trace (key, receiver, event and the two counts of the event data
  passed), \<open>callsTo\<close> the calls made under one key. \<open>stateKeysWith\<close> are the state keys
  of the membership events with a given membership, \<open>withCounts\<close> sets the two counts and
  \<open>bulkTracker\<close> is the tracker after the bulk update.
\<close>

fun isNewEventFor :: "RawMessage \<Rightarrow> Effect \<Rightarrow> bool" where
  "isNewEventFor ev (Invoke u r (OnNewEventCall p v)) = (Event v = ev)"
| "isNewEventFor ev _ = False"

fun isGlobalNewEvent :: "Receiver \<Rightarrow> RawMessage \<Rightarrow> Effect \<Rightarrow> bool" where
  "isGlobalNewEvent g ev (Invoke u r (OnNewEventCall p v)) =
     (u = DispatcherAllUsers \<and> r = g \<and> Event v = ev)"
| "isGlobalNewEvent g ev _ = False"

fun globalFirst :: "Receiver \<Rightarrow> RawMessage \<Rightarrow> Effect list \<Rightarrow> bool" where
  "globalFirst g ev [] = False"
| "globalFirst g ev (c # rest) = (isGlobalNewEvent g ev c \<and> list_all (isNewEventFor ev) rest)"

definition stateKeysWith :: "string \<Rightarrow> RawMessage list \<Rightarrow> string list" where
  "stateKeysWith membership state =
     List.map_filter (\<lambda>ev. if membershipOf ev = membership then memberTarget ev else None) state"

fun delivered :: "Effect list \<Rightarrow> (string \<times> Receiver \<times> RawMessage \<times> int \<times> int) list" where
  "delivered [] = []"
| "delivered (Invoke u r (OnNewEventCall p v) # tr) =
     (u, r, Event v, InviteCount v, JoinCount v) # delivered tr"
| "delivered (c # tr) = delivered tr"

definition dispatchTrace ::
  "(string \<rightharpoonup> Receiver) \<Rightarrow> nat \<Rightarrow> nat \<Rightarrow> EventData \<Rightarrow> string list \<Rightarrow> string \<Rightarrow> bool \<Rightarrow> string
    \<Rightarrow> Effect list"
where
  "dispatchTrace reg p ed e userIDs targetUser shouldForceInitial membership =
     globalCalls reg (OnNewEventCall ed e) @
     loopCalls reg targetUser shouldForceInitial e p (subscribed reg userIDs) @
     fallbackCalls reg ed e (subscribed reg userIDs) targetUser shouldForceInitial membership"

definition withCounts :: "int \<Rightarrow> int \<Rightarrow> EventData \<Rightarrow> EventData" where
  "withCounts inviteCount joinCount e = e\<lparr>InviteCount := inviteCount, JoinCount := joinCount\<rparr>"

definition bulkTracker :: "JoinedRoomsTracker \<Rightarrow> string \<Rightarrow> RawMessage list \<Rightarrow> JoinedRoomsTracker" where
  "bulkTracker t roomID state =
     UsersInvitedToRoom (snd (UsersJoinedRoom t (stateKeysWith ''join'' state) roomID))
       (stateKeysWith ''invite'' state) roomID"

fun callsTo :: "string \<Rightarrow> Effect list \<Rightarrow> (Receiver \<times> Call) list" where
  "callsTo userID [] = []"
| "callsTo userID (Invoke u r c # tr) =
     (if u = userID then (r, c) # callsTo userID tr else callsTo userID tr)"
| "callsTo userID (e # tr) = callsTo userID tr"

subsection \<open>A dispatcher to run the methods on\<close>

text \<open>
  Room \<open>!r\<close> has four joined users, the reserved key among them, and one invited user;
  the global receiver and the users \<open>@a\<close> and \<open>@c\<close> have receivers.
\<close>

definition exTracker :: JoinedRoomsTracker where
  "exTracker =
     \<lparr>joinedUsers = (\<lambda>r. if r = ''!r'' then [''@a'', ''-'', ''@b'', ''@c''] else []),
      invitedUsers = (\<lambda>r. if r = ''!r'' then [''@d''] else [])\<rparr>"

definition exMachine :: Machine where
  "exMachine =
     \<lparr>jrt = exTracker,
      userToReceiver = [''-'' \<mapsto> GlobalCache (Some 0), ''@a'' \<mapsto> UserCache (Some 1),
                        ''@c'' \<mapsto> UserCache (Some 2)],
      heap = [], trace = []\<rparr>"

definition memberEvent :: "string \<Rightarrow> string \<Rightarrow> RawMessage" where
  "memberEvent userID membership =
     \<lparr>msgType = ''m.room.member'', msgStateKey = Some userID,
      msgContent = [(''membership'', membership)]\<rparr>"

definition messageEvent :: RawMessage where
  "messageEvent = \<lparr>msgType = ''m.room.message'', msgStateKey = None, msgContent = [(''body'', ''hi'')]\<rparr>"

text \<open>
  The same dispatcher with one event data object on the heap, and with an empty
  tracker; a new dispatcher with a receiver registered for \<open>@u\<close>; the example dispatcher
  with a receiver registered for \<open>@e\<close>, who is not in the room.
\<close>

definition exHeapMachine :: Machine where
  "exHeapMachine = exMachine\<lparr>heap := [NewEventData messageEvent ''!r'' 1]\<rparr>"

definition exFreshMachine :: Machine where
  "exFreshMachine = exMachine\<lparr>jrt := NewJoinedRoomsTracker\<rparr>"

definition exInvitee :: Machine where
  "exInvitee = snd (Register (\<lambda>_. None) NewDispatcher ''@u'' (UserCache (Some 5)))"

definition exJoiner :: Machine where
  "exJoiner = snd (Register (\<lambda>_. None) exMachine ''@e'' (UserCache (Some 3)))"

section \<open>Properties of the ranges\<close>

subsection \<open>Delta\<close>

lemma fillMap_keys: "set (map fst (fillMap r m)) = set r \<union> set (map fst m)"
  by (induction r arbitrary: m) (auto simp: dom_update image_iff)

lemma keys_fillMap: "set (map fst (fillMap r [])) = set r"
  using fillMap_keys [of r "[]"] by simp

lemma fillMap_distinct: "distinct (map fst m) \<Longrightarrow> distinct (map fst (fillMap r m))"
  by (induction r arbitrary: m) (auto simp: distinct_update)

lemma map_of_fillMap:
  "map_of (fillMap r m) k = (if k \<in> set r then Some True else map_of m k)"
  by (induction r arbitrary: m) (auto simp: update_conv')

lemma mapGet_fillMap: "mapGet (fillMap r []) k = (k \<in> set r)"
  by (simp add: mapGet_def map_of_fillMap)

lemma deltaOlds_eq:
  "deltaOlds news ks (same, removed) =
     (same @ filter (mapGet news) ks, removed @ filter (\<lambda>k. \<not> mapGet news k) ks)"
  by (induction ks arbitrary: same removed) auto

lemma deltaNews_eq: "deltaNews olds ks added = added @ filter (\<lambda>k. \<not> mapGet olds k) ks"
  by (induction ks arbitrary: added) auto

lemma Delta_eq:
  "Delta r next =
    (filter (\<lambda>k. k \<notin> set r) (map fst (fillMap next [])),
     filter (\<lambda>k. k \<notin> set next) (map fst (fillMap r [])),
     filter (\<lambda>k. k \<in> set next) (map fst (fillMap r [])))"
proof -
  have "mapGet (fillMap next []) = (\<lambda>k. k \<in> set next)"
    by (rule ext) (rule mapGet_fillMap)
  then show ?thesis
    by (simp add: Delta_def Let_def deltaOlds_eq deltaNews_eq mapGet_fillMap)
qed

text \<open>
  C3. For any two range collections \<open>A\<close> and \<open>B\<close>, \<open>A.Delta(B)\<close> returns \<open>added\<close>,
  \<open>removed\<close> and \<open>same\<close> with, as sets, \<open>added \<union> same = B\<close>, \<open>removed \<union> same = A\<close> and
  \<open>added \<inter> removed = {}\<close>; \<open>same\<close> is the intersection, \<open>removed\<close> holds the pairs of
  \<open>A\<close> only and \<open>added\<close> the pairs of \<open>B\<close> only; a pair that occurs several times in
  \<open>A\<close> or in \<open>B\<close> occurs once in the result.
\<close>

theorem Delta_sets:
  "(case Delta A B of (added, removed, same) \<Rightarrow>
     set added \<union> set same = set B \<and> set removed \<union> set same = set A \<and>
     set added \<inter> set removed = {} \<and>
     set same = set A \<inter> set B \<and> set removed = set A - set B \<and> set added = set B - set A \<and>
     distinct added \<and> distinct removed \<and> distinct same)"
  unfolding Delta_eq using keys_fillMap [of A] keys_fillMap [of B]
    fillMap_distinct [of "[]" A] fillMap_distinct [of "[]" B]
  by (auto simp del: set_map)

theorem Delta_sets_witness:
  "Delta [(1, 2), (1, 2), (3, 4)] [(3, 4), (5, 6), (5, 6)] = ([(5, 6)], [(1, 2)], [(3, 4)]) \<and>
   set [(5, 6)] \<union> set [(3, 4)] = set [(3, 4), (5, 6), (5, 6 :: int64)] \<and>
   distinct [(5 :: int64, 6 :: int64)]"
  using Delta_sets [of "[(1, 2), (1, 2), (3, 4)]" "[(3, 4), (5, 6), (5, 6)]"]
  by (simp add: Delta_def mapGet_def)

subsection \<open>SliceInto\<close>

lemma SliceIntoLoop_those:
  "SliceIntoLoop Len Subslice sl r result =
     (case those (map (\<lambda>sr. Subslice sl (capIndex (Len sl) (fst sr)) (capIndex (Len sl) (snd sr) + 1)) r) of
        None \<Rightarrow> None | Some ys \<Rightarrow> Some (result @ ys))"
  by (induction r arbitrary: result) (auto simp: Let_def split: option.splits)

lemma SliceInto_those:
  "SliceInto Len Subslice r sl =
     those (map (\<lambda>sr. Subslice sl (capIndex (Len sl) (fst sr)) (capIndex (Len sl) (snd sr) + 1)) r)"
  by (simp add: SliceInto_def SliceIntoLoop_those split: option.splits)

lemma sint_seqLen: "length xs < 2 ^ 63 \<Longrightarrow> sint (seqLen xs) = int (length xs)"
proof -
  assume a: "length xs < 2 ^ 63"
  have "sint (word_of_nat (length xs) :: int64) = signed_take_bit 63 (int (length xs))"
    by (simp add: signed_of_nat)
  also have "\<dots> = int (length xs)"
    using a by (intro signed_take_bit_int_eq_self) auto
  finally show ?thesis by (simp add: seqLen_def)
qed

lemma sint_minus1: "- (2 ^ 63) < sint (L :: int64) \<Longrightarrow> sint (L - 1) = sint L - 1"
proof -
  assume a: "- (2 ^ 63) < sint L"
  have b: "sint L < 2 ^ 63" using sint_lt [of L] by simp
  have "sint (L - 1) = signed_take_bit 63 (sint L - 1)"
    by (simp add: sint_word_ariths)
  also have "\<dots> = sint L - 1"
    using a b by (intro signed_take_bit_int_eq_self) auto
  finally show ?thesis .
qed

lemma sint_plus1: "sint (c :: int64) < 2 ^ 63 - 1 \<Longrightarrow> sint (c + 1) = sint c + 1"
proof -
  assume a: "sint c < 2 ^ 63 - 1"
  have b: "- (2 ^ 63) \<le> sint c" using sint_ge [of c] by simp
  have "sint (c + 1) = signed_take_bit 63 (sint c + 1)"
    by (simp add: sint_word_ariths)
  also have "\<dots> = sint c + 1"
    using a b by (intro signed_take_bit_int_eq_self) auto
  finally show ?thesis .
qed

lemma Valid_iff:
  "Valid r \<longleftrightarrow> (\<forall>sr \<in> set r. 0 \<le> sint (fst sr) \<and> sint (fst sr) \<le> sint (snd sr))"
  by (induction r) (auto simp: word_sless_alt)

lemma sint_capIndex:
  assumes "0 \<le> sint L"
  shows "sint (capIndex L i) = (if sint L \<le> sint i then sint L - 1 else sint i)"
  using assms by (simp add: capIndex_def word_sle_eq sint_minus1)

lemma take_drop_nths: "j \<le> length xs \<Longrightarrow> take (j - i) (drop i xs) = map ((!) xs) [i..<j]"
  by (rule nth_equalityI) auto

lemma cap_min:
  "0 < n \<Longrightarrow> 0 \<le> k \<Longrightarrow> (if int n \<le> k then int n - 1 else k) = int (min (nat k) (n - 1))"
  by (cases "int n \<le> k") (simp_all add: min_def, linarith+)

lemma seqSubslice_capped:
  assumes n: "xs \<noteq> []" "length xs < 2 ^ 63"
    and v: "0 \<le> sint s" "sint s \<le> sint e"
  shows "seqSubslice xs (capIndex (seqLen xs) s) (capIndex (seqLen xs) e + 1) =
    Some (map ((!) xs) [min (nat (sint s)) (length xs - 1) ..< Suc (min (nat (sint e)) (length xs - 1))])"
proof -
  let ?L = "seqLen xs"
  have L: "sint ?L = int (length xs)" using n by (simp add: sint_seqLen)
  have pos: "0 \<le> sint ?L" using n L by simp
  have lt: "int (length xs) < 2 ^ 63" using n by simp
  have len: "0 < length xs" using n by simp
  have cap: "sint (capIndex ?L i) = int (min (nat (sint i)) (length xs - 1))" if "0 \<le> sint i" for i
  proof -
    have "sint (capIndex ?L i) = (if int (length xs) \<le> sint i then int (length xs) - 1 else sint i)"
      by (simp only: sint_capIndex [OF pos] L)
    also have "\<dots> = int (min (nat (sint i)) (length xs - 1))"
      by (rule cap_min [OF len that])
    finally show ?thesis .
  qed
  have s': "sint (capIndex ?L s) = int (min (nat (sint s)) (length xs - 1))"
    using v by (intro cap) simp
  have e0: "sint (capIndex ?L e) = int (min (nat (sint e)) (length xs - 1))"
    using v by (intro cap) simp
  have "sint (capIndex ?L e) < 2 ^ 63 - 1"
    using e0 lt n by (simp add: min_def split: if_splits)
  then have e': "sint (capIndex ?L e + 1) = int (Suc (min (nat (sint e)) (length xs - 1)))"
    using e0 by (simp add: sint_plus1)
  have le: "min (nat (sint s)) (length xs - 1) \<le> Suc (min (nat (sint e)) (length xs - 1))"
  proof -
    have "nat (sint s) \<le> nat (sint e)" using v by simp
    then show ?thesis by (simp add: min_def)
  qed
  have up: "Suc (min (nat (sint e)) (length xs - 1)) \<le> length xs"
    using n by (cases xs) (auto simp: min_def)
  show ?thesis
    unfolding seqSubslice_def s' e' using le up
    by (simp only: nat_int take_drop_nths [OF up] of_nat_0_le_iff of_nat_le_iff if_True simp_thms)
qed

lemma those_map_Some:
  "(\<And>x. x \<in> set xs \<Longrightarrow> f x = Some (g x)) \<Longrightarrow> those (map f xs) = Some (map g xs)"
  by (induction xs) auto

lemma SliceInto_seq:
  assumes "xs \<noteq> []" "length xs < 2 ^ 63" "Valid r"
  shows "SliceInto seqLen seqSubslice r xs =
    Some (map (\<lambda>sr. map ((!) xs) [min (nat (sint (fst sr))) (length xs - 1) ..<
                                  Suc (min (nat (sint (snd sr))) (length xs - 1))]) r)"
  unfolding SliceInto_those
  using assms by (intro those_map_Some seqSubslice_capped) (auto simp: Valid_iff)

text \<open>
  What \<open>SliceInto\<close> does where it works. It goes through the ranges in input order; a
  bound that is at least \<open>len(sequence)\<close> is replaced by \<open>len(sequence) - 1\<close>, any
  other bound is kept, and the slice \<open>[start, end + 1)\<close> of the capped bounds is asked
  for. For a non-empty sequence (whose length is an \<open>int64\<close>) the cap of a bound that
  is not negative is not negative: every range with \<open>0 \<le> start \<le> end\<close> yields the
  elements at the positions \<open>min start (len - 1)\<close> to \<open>min end (len - 1)\<close>, at least
  one; a sequence of length 10 and the range \<open>[5, 20]\<close> give the positions 5 to 9.
\<close>

theorem SliceInto_capped:
  fixes xs :: "'a list" and x0 :: 'b
  shows
  "SliceInto Len Subslice r sl =
     those (map (\<lambda>sr. Subslice sl (capIndex (Len sl) (fst sr)) (capIndex (Len sl) (snd sr) + 1)) r) \<and>
   (0 \<le> sint L \<longrightarrow>
      sint (capIndex L i) = (if sint L \<le> sint i then sint L - 1 else sint i)) \<and>
   (xs \<noteq> [] \<and> length xs < 2 ^ 63 \<and> Valid rs \<longrightarrow>
      SliceInto seqLen seqSubslice rs xs =
        Some (map (\<lambda>sr. map ((!) xs) [min (nat (sint (fst sr))) (length xs - 1) ..<
                                      Suc (min (nat (sint (snd sr))) (length xs - 1))]) rs) \<and>
      (\<forall>sr \<in> set rs. 0 \<le> sint (capIndex (seqLen xs) (fst sr)) \<and>
                      0 \<le> sint (capIndex (seqLen xs) (snd sr)) \<and>
                      min (nat (sint (fst sr))) (length xs - 1) \<le>
                        min (nat (sint (snd sr))) (length xs - 1) \<and>
                      min (nat (sint (snd sr))) (length xs - 1) < length xs)) \<and>
   SliceInto seqLen seqSubslice [(5, 20)] [x0, x1, x2, x3, x4, x5, x6, x7, x8, x9] =
     Some [[x5, x6, x7, x8, x9]]"
proof (intro conjI impI ballI)
  show "SliceInto Len Subslice r sl =
     those (map (\<lambda>sr. Subslice sl (capIndex (Len sl) (fst sr)) (capIndex (Len sl) (snd sr) + 1)) r)"
    by (rule SliceInto_those)
  show "sint (capIndex L i) = (if sint L \<le> sint i then sint L - 1 else sint i)"
    if "0 \<le> sint L"
    using that by (rule sint_capIndex)
  show "SliceInto seqLen seqSubslice [(5, 20)] [x0, x1, x2, x3, x4, x5, x6, x7, x8, x9] =
     Some [[x5, x6, x7, x8, x9]]"
    by (simp add: SliceInto_def capIndex_def seqLen_def seqSubslice_def)
next
  assume a: "xs \<noteq> [] \<and> length xs < 2 ^ 63 \<and> Valid rs"
  then show "SliceInto seqLen seqSubslice rs xs =
        Some (map (\<lambda>sr. map ((!) xs) [min (nat (sint (fst sr))) (length xs - 1) ..<
                                      Suc (min (nat (sint (snd sr))) (length xs - 1))]) rs)"
    by (intro SliceInto_seq) simp_all
  fix sr assume sr: "sr \<in> set rs"
  from a have pos: "0 \<le> sint (seqLen xs)" by (simp add: sint_seqLen)
  from a have len: "0 < length xs" by simp
  from a sr have v: "0 \<le> sint (fst sr)" "sint (fst sr) \<le> sint (snd sr)"
    by (auto simp: Valid_iff)
  show "0 \<le> sint (capIndex (seqLen xs) (fst sr))"
    using a len v by (simp add: sint_capIndex [OF pos] sint_seqLen)
  show "0 \<le> sint (capIndex (seqLen xs) (snd sr))"
    using a len v by (simp add: sint_capIndex [OF pos] sint_seqLen)
  have "nat (sint (fst sr)) \<le> nat (sint (snd sr))" using v by simp
  then show "min (nat (sint (fst sr))) (length xs - 1) \<le> min (nat (sint (snd sr))) (length xs - 1)"
    by (simp add: min_def)
  have "length xs - 1 < length xs" using len by simp
  then show "min (nat (sint (snd sr))) (length xs - 1) < length xs"
    by (rule min.strict_coboundedI2)
qed

theorem SliceInto_capped_witness:
  "[0, 1, 2, 3, 4, 5, 6, 7, 8, 9 :: nat] \<noteq> [] \<and>
   length [0, 1, 2, 3, 4, 5, 6, 7, 8, 9 :: nat] < 2 ^ 63 \<and>
   Valid [(5, 20), (0, 0), (12, 13)] \<and>
   SliceInto seqLen seqSubslice [(5, 20), (0, 0), (12, 13)] [0, 1, 2, 3, 4, 5, 6, 7, 8, 9 :: nat] =
     Some [[5, 6, 7, 8, 9], [0], [9]]"
proof -
  let ?xs = "[0, 1, 2, 3, 4, 5, 6, 7, 8, 9 :: nat]"
  let ?rs = "[(5, 20), (0, 0), (12, 13)] :: SliceRanges"
  have h: "?xs \<noteq> [] \<and> length ?xs < 2 ^ 63 \<and> Valid ?rs"
    by (simp add: word_sless_alt)
  have "SliceInto seqLen seqSubslice ?rs ?xs =
      Some (map (\<lambda>sr. map ((!) ?xs) [min (nat (sint (fst sr))) (length ?xs - 1) ..<
                                      Suc (min (nat (sint (snd sr))) (length ?xs - 1))]) ?rs)"
    by (rule SliceInto_capped [where rs = ?rs and xs = ?xs,
          THEN conjunct2, THEN conjunct2, THEN conjunct1, THEN mp, OF h, THEN conjunct1])
  then have "SliceInto seqLen seqSubslice ?rs ?xs = Some [[5, 6, 7, 8, 9], [0], [9]]"
    by (simp add: upt_rec)
  with h show ?thesis by blast
qed

text \<open>
  C2, on the code. The claim has the cap never below 0, for every sequence. The loop
  has no case for the empty sequence: there \<open>len(sequence) - 1\<close> is \<open>-1\<close>, every
  bound that is not negative is replaced by it, and the slice \<open>[-1, 0)\<close> that is asked
  for does not exist, so the call fails for the valid ranges \<open>[0, 0]\<close> and \<open>[0, 19]\<close>
  alike.
\<close>

theorem SliceInto_empty_sequence:
  "capIndex (seqLen ([] :: nat list)) 0 <s 0 \<and>
   sint (capIndex (seqLen ([] :: nat list)) 0) = - 1 \<and>
   sint (capIndex (seqLen ([] :: nat list)) 19) = - 1 \<and>
   Valid [(0, 0)] \<and> Valid [(0, 19)] \<and>
   SliceInto seqLen seqSubslice [(0, 0)] ([] :: nat list) = None \<and>
   SliceInto seqLen seqSubslice [(0, 19)] ([] :: nat list) = None"
  by (simp add: SliceInto_def capIndex_def seqLen_def seqSubslice_def word_sless_alt word_sle_eq)

section \<open>Properties of the dispatcher\<close>

subsection \<open>The trace and the heap of a dispatch\<close>

lemma subscribed_simps [simp]:
  "subscribed reg [] = []"
  "subscribed reg (u # us) = (if receiverAt reg u \<noteq> NilReceiver then u # subscribed reg us else subscribed reg us)"
  by (simp_all add: subscribed_def)

lemma loopCalls_simps [simp]:
  "loopCalls reg t f e p [] = []"
  "loopCalls reg t f e p (u # us) =
     Invoke u (receiverAt reg u) (OnNewEventCall p (copyFor t f e u)) # loopCalls reg t f e (Suc p) us"
  by (simp_all add: loopCalls_def)

lemma notifyLoop_eq:
  "ed < length (heap s) \<Longrightarrow>
   notifyLoop ed targetUser shouldForceInitial userIDs (notifiedTarget, s) =
     (notifiedTarget \<or> targetUser \<in> set (subscribed (userToReceiver s) userIDs),
      s\<lparr>heap := heap s @ map (copyFor targetUser shouldForceInitial (heap s ! ed))
                          (subscribed (userToReceiver s) userIDs),
        trace := trace s @ loopCalls (userToReceiver s) targetUser shouldForceInitial (heap s ! ed)
                             (length (heap s)) (subscribed (userToReceiver s) userIDs)\<rparr>)"
proof (induction userIDs arbitrary: notifiedTarget s)
  case Nil
  then show ?case by simp
next
  case (Cons u us)
  show ?case
  proof (cases "receiverAt (userToReceiver s) u = NilReceiver")
    case True
    then show ?thesis using Cons by simp
  next
    case False
    then show ?thesis using Cons.prems
      by (simp add: Let_def Cons.IH nth_append copyFor_def)
  qed
qed

lemma notifyListeners_eq:
  assumes "ed < length (heap s)"
  shows "notifyListeners s ed userIDs targetUser shouldForceInitial membership =
    (let reg = userToReceiver s; e = heap s ! ed; audience = subscribed reg userIDs
     in s\<lparr>heap := (if fallbackActive audience targetUser membership \<and> shouldForceInitial
                    then (heap s) [ed := e\<lparr>ForceInitial := True\<rparr>] else heap s) @
                   map (copyFor targetUser shouldForceInitial e) audience,
          trace := trace s @ globalCalls reg (OnNewEventCall ed e) @
                   loopCalls reg targetUser shouldForceInitial e (length (heap s)) audience @
                   fallbackCalls reg ed e audience targetUser shouldForceInitial membership\<rparr>)"
  using assms
  by (simp add: notifyListeners_def Let_def notifyLoop_eq globalCalls_def fallbackCalls_def
      fallbackActive_def nth_append list_update_append)

lemma audienceFilter_eq:
  "audienceFilter s = (\<lambda>u. u \<noteq> DispatcherAllUsers \<and> receiverAt (userToReceiver s) u \<noteq> NilReceiver)"
  by (rule ext) (simp add: audienceFilter_def ReceiverForUser_def)

lemma JoinedUsersForRoom_audience:
  "JoinedUsersForRoom t roomID (Some (audienceFilter s)) =
     (audience (userToReceiver s) t roomID, joinCountOf t roomID)"
  by (simp add: JoinedUsersForRoom_def audience_def joinCountOf_def audienceFilter_eq)

lemma subscribed_audience [simp]: "subscribed reg (audience reg t roomID) = audience reg t roomID"
  by (auto simp: subscribed_def audience_def intro: filter_cong)

lemma audienceFilter_registry:
  "userToReceiver s' = userToReceiver s \<Longrightarrow> audienceFilter s' = audienceFilter s"
  by (rule ext) (simp add: audienceFilter_def ReceiverForUser_def)

lemma NewEventData_sel [simp]:
  "Event (NewEventData event roomID nid) = event"
  "RoomID (NewEventData event roomID nid) = roomID"
  "EventType (NewEventData event roomID nid) = msgType event"
  "StateKey (NewEventData event roomID nid) = msgStateKey event"
  "Content (NewEventData event roomID nid) = msgContent event"
  "NID (NewEventData event roomID nid) = nid"
  "JoinCount (NewEventData event roomID nid) = 0"
  "InviteCount (NewEventData event roomID nid) = 0"
  "ForceInitial (NewEventData event roomID nid) = False"
  by (simp_all add: NewEventData_def)

lemma audienceFilter_upd [simp]:
  "audienceFilter (s\<lparr>heap := h\<rparr>) = audienceFilter s"
  "audienceFilter (s\<lparr>jrt := t\<rparr>) = audienceFilter s"
  "audienceFilter (s\<lparr>trace := tr\<rparr>) = audienceFilter s"
  by (simp_all add: audienceFilter_eq)

lemma OnNewEvent_None:
  assumes "memberTarget event = None"
  shows "OnNewEvent s roomID event nid =
    notifyListeners
      (s\<lparr>heap := heap s @ [(NewEventData event roomID nid)\<lparr>JoinCount := joinCountOf (jrt s) roomID\<rparr>]\<rparr>)
      (length (heap s)) (audience (userToReceiver s) (jrt s) roomID) [] False []"
proof (cases "msgType event = ''m.room.member''")
  case True
  with assms have "msgStateKey event = None" by (simp add: memberTarget_def)
  with True show ?thesis
    by (simp add: OnNewEvent_def Let_def JoinedUsersForRoom_audience)
next
  case False
  then show ?thesis
    by (simp add: OnNewEvent_def Let_def JoinedUsersForRoom_audience)
qed

lemma OnNewEvent_Some:
  assumes "memberTarget event = Some u"
    and "switchMembership (jrt s) (membershipOf event) u roomID = (f, t)"
  shows "OnNewEvent s roomID event nid =
    notifyListeners
      (s\<lparr>jrt := t,
         heap := heap s @ [(NewEventData event roomID nid)
                  \<lparr>InviteCount := NumInvitedUsersForRoom t roomID,
                   JoinCount := joinCountOf t roomID\<rparr>]\<rparr>)
      (length (heap s)) (audience (userToReceiver s) t roomID) u f (membershipOf event)"
proof -
  from assms(1) have m: "msgType event = ''m.room.member''" "msgStateKey event = Some u"
    by (simp_all add: memberTarget_def split: if_splits)
  from assms(2) have sw:
    "switchMembership (jrt s) (contentGetStr (msgContent event) ''membership'') u roomID = (f, t)"
    by (simp add: membershipOf_def)
  show ?thesis
    by (simp add: OnNewEvent_def Let_def m sw membershipOf_def JoinedUsersForRoom_audience)
qed


lemmas eval_defs = exMachine_def exTracker_def memberEvent_def messageEvent_def
  JoinedUsersForRoom_def NumInvitedUsersForRoom_def
  audienceFilter_def ReceiverForUser_def receiverAt_def DispatcherAllUsers_def
  UsersJoinedRoom_def UserJoinedRoom_def UserLeftRoom_def UsersInvitedToRoom_def
  NewDispatcher_def NewJoinedRoomsTracker_def switchMembership_def NewEventData_def
  contentGetStr_def notifyListeners_def OnNewEvent_def OnEphemeralEvent_def OnReceipt_def
  Let_def

lemmas ex_defs = exHeapMachine_def exFreshMachine_def

lemma memberEvent_sel [simp]:
  "memberTarget (memberEvent u m) = Some u" "membershipOf (memberEvent u m) = m"
  "memberTarget messageEvent = None"
  by (simp_all add: memberTarget_def membershipOf_def memberEvent_def messageEvent_def contentGetStr_def)

subsection \<open>OnEphemeralEvent and OnReceipt\<close>

lemma pokeLoop_eq:
  "pokeLoop c userIDs s =
     s\<lparr>trace := trace s @
          map (\<lambda>u. Invoke u (receiverAt (userToReceiver s) u) c) (subscribed (userToReceiver s) userIDs)\<rparr>"
  by (induction userIDs arbitrary: s) (simp_all add: Let_def)

lemma OnEphemeralEvent_eq:
  "OnEphemeralEvent s roomID ephEvent =
     s\<lparr>trace := trace s @ globalCalls (userToReceiver s) (OnEphemeralEventCall roomID ephEvent) @
          map (\<lambda>u. Invoke u (receiverAt (userToReceiver s) u) (OnEphemeralEventCall roomID ephEvent))
            (audience (userToReceiver s) (jrt s) roomID)\<rparr>"
  by (simp add: OnEphemeralEvent_def JoinedUsersForRoom_audience pokeLoop_eq globalCalls_def)

lemma OnReceipt_eq:
  "OnReceipt s receipt =
     s\<lparr>trace := trace s @ globalCalls (userToReceiver s) (OnReceiptCall receipt) @
          map (\<lambda>u. Invoke u (receiverAt (userToReceiver s) u) (OnReceiptCall receipt))
            (audience (userToReceiver s) (jrt s) (receiptRoomID receipt))\<rparr>"
  by (simp add: OnReceipt_def JoinedUsersForRoom_audience pokeLoop_eq globalCalls_def)

text \<open>
  C9. \<open>OnEphemeralEvent\<close> and \<open>OnReceipt\<close> leave the membership tracker as it was
  (and so the joined users, the join count and the invite count of every room), as well
  as the registry and the heap. What they add to the trace is the call on the global
  receiver, if there is one, and then one call for every joined user of the room that
  is not the reserved key and has a receiver.
\<close>

theorem ephemeral_receipt_frame:
  "jrt (OnEphemeralEvent s roomID ephEvent) = jrt s \<and>
   jrt (OnReceipt s receipt) = jrt s \<and>
   JoinedUsersForRoom (jrt (OnEphemeralEvent s roomID ephEvent)) room flt =
     JoinedUsersForRoom (jrt s) room flt \<and>
   NumInvitedUsersForRoom (jrt (OnEphemeralEvent s roomID ephEvent)) room =
     NumInvitedUsersForRoom (jrt s) room \<and>
   JoinedUsersForRoom (jrt (OnReceipt s receipt)) room flt = JoinedUsersForRoom (jrt s) room flt \<and>
   NumInvitedUsersForRoom (jrt (OnReceipt s receipt)) room = NumInvitedUsersForRoom (jrt s) room \<and>
   userToReceiver (OnEphemeralEvent s roomID ephEvent) = userToReceiver s \<and>
   userToReceiver (OnReceipt s receipt) = userToReceiver s \<and>
   heap (OnEphemeralEvent s roomID ephEvent) = heap s \<and>
   heap (OnReceipt s receipt) = heap s \<and>
   trace (OnEphemeralEvent s roomID ephEvent) =
     trace s @
     (if receiverAt (userToReceiver s) DispatcherAllUsers \<noteq> NilReceiver
      then [Invoke DispatcherAllUsers (receiverAt (userToReceiver s) DispatcherAllUsers)
              (OnEphemeralEventCall roomID ephEvent)]
      else []) @
     map (\<lambda>u. Invoke u (receiverAt (userToReceiver s) u) (OnEphemeralEventCall roomID ephEvent))
       (filter (\<lambda>u. u \<noteq> DispatcherAllUsers \<and> receiverAt (userToReceiver s) u \<noteq> NilReceiver)
          (remdups (joinedUsers (jrt s) roomID))) \<and>
   trace (OnReceipt s receipt) =
     trace s @
     (if receiverAt (userToReceiver s) DispatcherAllUsers \<noteq> NilReceiver
      then [Invoke DispatcherAllUsers (receiverAt (userToReceiver s) DispatcherAllUsers)
              (OnReceiptCall receipt)]
      else []) @
     map (\<lambda>u. Invoke u (receiverAt (userToReceiver s) u) (OnReceiptCall receipt))
       (filter (\<lambda>u. u \<noteq> DispatcherAllUsers \<and> receiverAt (userToReceiver s) u \<noteq> NilReceiver)
          (remdups (joinedUsers (jrt s) (receiptRoomID receipt))))"
  by (simp add: OnEphemeralEvent_eq OnReceipt_eq globalCalls_def audience_def)

theorem ephemeral_receipt_frame_witness:
  "jrt (OnEphemeralEvent exMachine ''!r'' messageEvent) = exTracker \<and>
   jrt (OnReceipt exMachine \<lparr>receiptRoomID = ''!r'', receiptBody = ''read''\<rparr>) = exTracker \<and>
   trace (OnEphemeralEvent exMachine ''!r'' messageEvent) =
     [Invoke ''-'' (GlobalCache (Some 0)) (OnEphemeralEventCall ''!r'' messageEvent),
      Invoke ''@a'' (UserCache (Some 1)) (OnEphemeralEventCall ''!r'' messageEvent),
      Invoke ''@c'' (UserCache (Some 2)) (OnEphemeralEventCall ''!r'' messageEvent)]"
  using ephemeral_receipt_frame [of exMachine "''!r''" messageEvent
      "\<lparr>receiptRoomID = ''!r'', receiptBody = ''read''\<rparr>"]
  by (simp add: exMachine_def exTracker_def receiverAt_def DispatcherAllUsers_def)

subsection \<open>Register\<close>

text \<open>
  C7. \<open>Register\<close> of a receiver (not the nil interface) puts it into the registry
  under the user, whatever was there before, calls its \<open>OnRegistered\<close> and returns what
  that call returns, an error included; the receiver is in the registry in either
  case. If the user had a receiver already, the only difference is a warning in the
  log, ahead of the call.
\<close>

theorem Register_installs:
  assumes "r \<noteq> NilReceiver"
  shows "fst (Register hook s userID r) = Returned (hook r) \<and>
    userToReceiver (snd (Register hook s userID r)) = (userToReceiver s) (userID \<mapsto> r) \<and>
    ReceiverForUser (snd (Register hook s userID r)) userID = r \<and>
    jrt (snd (Register hook s userID r)) = jrt s \<and>
    heap (snd (Register hook s userID r)) = heap s \<and>
    trace (snd (Register hook s userID r)) =
      trace s @
      (if userToReceiver s userID \<noteq> None
       then [LogWarn ''Dispatcher.Register: receiver already registered''] else []) @
      [Invoke userID r OnRegisteredCall]"
  using assms by (simp add: Register_def Let_def ReceiverForUser_def receiverAt_def)

theorem Register_installs_witness:
  "UserCache (Some 7) \<noteq> NilReceiver \<and>
   fst (Register (\<lambda>_. Some ''hook failed'') exMachine ''@a'' (UserCache (Some 7))) =
     Returned (Some ''hook failed'') \<and>
   userToReceiver (snd (Register (\<lambda>_. Some ''hook failed'') exMachine ''@a'' (UserCache (Some 7)))) ''@a'' =
     Some (UserCache (Some 7)) \<and>
   trace (snd (Register (\<lambda>_. Some ''hook failed'') exMachine ''@a'' (UserCache (Some 7)))) =
     [LogWarn ''Dispatcher.Register: receiver already registered'',
      Invoke ''@a'' (UserCache (Some 7)) OnRegisteredCall]"
  using Register_installs [of "UserCache (Some 7)" "\<lambda>_. Some ''hook failed''" exMachine "''@a''"]
  by (simp add: exMachine_def)

subsection \<open>OnInvalidateRoom without a global receiver\<close>

text \<open>
  C1, on the code. With no receiver under the global key the index expression gives the
  nil interface, and the type assertion panics: the call ends there, with the tracker,
  the registry and the trace as they were, so nothing is logged and the error branch
  behind the assertion is not reached.
\<close>

theorem OnInvalidateRoom_no_global_panics:
  "userToReceiver s DispatcherAllUsers = None \<Longrightarrow>
   OnInvalidateRoom s roomID joins invites leaves = (Panicked, s)"
  by (simp add: OnInvalidateRoom_def receiverAt_def)

theorem OnInvalidateRoom_no_global_panics_witness:
  "userToReceiver NewDispatcher DispatcherAllUsers = None \<and>
   OnInvalidateRoom NewDispatcher ''!r'' [(''@a'', 0)] [] [(''@b'', messageEvent)] =
     (Panicked, NewDispatcher)"
  using OnInvalidateRoom_no_global_panics [of NewDispatcher "''!r''" "[(''@a'', 0)]" "[]"
      "[(''@b'', messageEvent)]"]
  by (simp add: NewDispatcher_def)

text \<open>
  The branch behind the assertion is taken when the global key holds a nil pointer of
  type \<^verbatim>\<open>*caches.GlobalCache\<close>: then the error is logged and nothing else happens.
\<close>

lemma OnInvalidateRoom_nil_pointer:
  "userToReceiver s DispatcherAllUsers = Some (GlobalCache None) \<Longrightarrow>
   OnInvalidateRoom s roomID joins invites leaves =
     (Returned (), s\<lparr>trace := trace s @ [LogError ''No receiver for global cache'']\<rparr>)"
  by (simp add: OnInvalidateRoom_def receiverAt_def)

subsection \<open>A second call on the global receiver\<close>

text \<open>
  The filter keeps the reserved key out of every audience, and \<open>OnEphemeralEvent\<close> and
  \<open>OnReceipt\<close> call the global receiver once.
\<close>

lemma sentinel_not_in_audience:
  "DispatcherAllUsers \<notin> set (fst (JoinedUsersForRoom t roomID (Some (audienceFilter s))))"
  by (simp add: JoinedUsersForRoom_def audienceFilter_def)

lemma ephemeral_receipt_global_once:
  assumes "receiverAt (userToReceiver s) DispatcherAllUsers \<noteq> NilReceiver"
  shows "length (filter (\<lambda>c. case c of Invoke u r _ \<Rightarrow> u = DispatcherAllUsers | _ \<Rightarrow> False)
           (drop (length (trace s)) (trace (OnEphemeralEvent s roomID ephEvent)))) = 1"
    and "length (filter (\<lambda>c. case c of Invoke u r _ \<Rightarrow> u = DispatcherAllUsers | _ \<Rightarrow> False)
           (drop (length (trace s)) (trace (OnReceipt s receipt)))) = 1"
proof -
  have none: "filter (\<lambda>x. x \<noteq> DispatcherAllUsers \<and> receiverAt (userToReceiver s) x \<noteq> NilReceiver \<and>
                   x = DispatcherAllUsers) xs = []" for xs
    by (induction xs) auto
  show "length (filter (\<lambda>c. case c of Invoke u r _ \<Rightarrow> u = DispatcherAllUsers | _ \<Rightarrow> False)
           (drop (length (trace s)) (trace (OnEphemeralEvent s roomID ephEvent)))) = 1"
    using assms
    by (simp add: OnEphemeralEvent_eq globalCalls_def audience_def filter_map comp_def none)
  show "length (filter (\<lambda>c. case c of Invoke u r _ \<Rightarrow> u = DispatcherAllUsers | _ \<Rightarrow> False)
           (drop (length (trace s)) (trace (OnReceipt s receipt)))) = 1"
    using assms
    by (simp add: OnReceipt_eq globalCalls_def audience_def filter_map comp_def none)
qed


text \<open>
  C10, on the code. In the example dispatcher the reserved key is among the joined users
  of the room. A membership event with the reserved key as its state key and the
  membership \<open>join\<close> reaches the global receiver first, then the two users with a
  receiver (the filter keeps the reserved key out of this loop), and then the global
  receiver once more: the direct call on the target user's receiver looks the reserved
  key up in the registry.
\<close>

theorem OnNewEvent_global_twice:
  "map (\<lambda>c. case c of Invoke u r _ \<Rightarrow> (u, r) | _ \<Rightarrow> ([], NilReceiver))
     (trace (OnNewEvent exMachine ''!r'' (memberEvent ''-'' ''join'') 7)) =
   [(''-'', GlobalCache (Some 0)), (''@a'', UserCache (Some 1)), (''@c'', UserCache (Some 2)),
    (''-'', GlobalCache (Some 0))]"
  by (simp add: eval_defs)


subsection \<open>OnNewEvent and OnNewInitialRoomState\<close>

lemma notifyListeners_trace:
  "ed < length (heap s) \<Longrightarrow>
   trace (notifyListeners s ed userIDs targetUser shouldForceInitial membership) =
     trace s @ dispatchTrace (userToReceiver s) (length (heap s)) ed (heap s ! ed) userIDs targetUser
                 shouldForceInitial membership"
  by (simp add: notifyListeners_eq Let_def dispatchTrace_def)

lemma notifyListeners_frame:
  assumes "ed < length (heap s)"
  shows "jrt (notifyListeners s ed userIDs targetUser shouldForceInitial membership) = jrt s"
    and "userToReceiver (notifyListeners s ed userIDs targetUser shouldForceInitial membership) =
           userToReceiver s"
    and "length (heap s) \<le> length (heap (notifyListeners s ed userIDs targetUser shouldForceInitial membership))"
    and "q < length (heap s) \<Longrightarrow> q \<noteq> ed \<Longrightarrow>
           heap (notifyListeners s ed userIDs targetUser shouldForceInitial membership) ! q = heap s ! q"
  using assms by (simp_all add: notifyListeners_eq Let_def nth_append)

lemma Event_copyFor [simp]: "Event (copyFor t f e u) = Event e"
  "InviteCount (copyFor t f e u) = InviteCount e" "JoinCount (copyFor t f e u) = JoinCount e"
  by (simp_all add: copyFor_def)

lemma loopCalls_isNewEventFor: "list_all (isNewEventFor (Event e)) (loopCalls reg t f e p us)"
  by (induction us arbitrary: p) simp_all

lemma fallbackCalls_isNewEventFor:
  "list_all (isNewEventFor (Event e)) (fallbackCalls reg ed e aud t f m)"
  by (simp add: fallbackCalls_def)

lemma dispatchTrace_globalFirst:
  assumes "receiverAt reg DispatcherAllUsers \<noteq> NilReceiver"
  shows "globalFirst (receiverAt reg DispatcherAllUsers) (Event e)
           (dispatchTrace reg p ed e userIDs t f m)"
  using assms
  by (simp add: dispatchTrace_def globalCalls_def loopCalls_isNewEventFor fallbackCalls_isNewEventFor)

lemma OnNewEvent_trace:
  "\<exists>e t f m. Event e = event \<and>
     trace (OnNewEvent s roomID event nid) =
       trace s @ dispatchTrace (userToReceiver s) (Suc (length (heap s))) (length (heap s)) e
                   (audience (userToReceiver s) t roomID)
                   (case memberTarget event of None \<Rightarrow> [] | Some u \<Rightarrow> u) f m"
proof (cases "memberTarget event")
  case None
  let ?e = "(NewEventData event roomID nid)\<lparr>JoinCount := joinCountOf (jrt s) roomID\<rparr>"
  have "Event ?e = event" by simp
  moreover have "trace (OnNewEvent s roomID event nid) =
       trace s @ dispatchTrace (userToReceiver s) (Suc (length (heap s))) (length (heap s)) ?e
                   (audience (userToReceiver s) (jrt s) roomID)
                   (case memberTarget event of None \<Rightarrow> [] | Some u \<Rightarrow> u) False []"
    unfolding OnNewEvent_None [OF None] by (simp add: notifyListeners_trace None)
  ultimately show ?thesis by blast
next
  case (Some u)
  obtain f t where sw: "switchMembership (jrt s) (membershipOf event) u roomID = (f, t)"
    by (cases "switchMembership (jrt s) (membershipOf event) u roomID")
  let ?e = "(NewEventData event roomID nid)
                  \<lparr>InviteCount := NumInvitedUsersForRoom t roomID,
                   JoinCount := joinCountOf t roomID\<rparr>"
  have "Event ?e = event" by simp
  moreover have "trace (OnNewEvent s roomID event nid) =
       trace s @ dispatchTrace (userToReceiver s) (Suc (length (heap s))) (length (heap s)) ?e
                   (audience (userToReceiver s) t roomID)
                   (case memberTarget event of None \<Rightarrow> [] | Some u \<Rightarrow> u) f (membershipOf event)"
    unfolding OnNewEvent_Some [OF Some sw] by (simp add: notifyListeners_trace Some)
  ultimately show ?thesis by blast
qed

lemma OnNewEvent_registry [simp]:
  "userToReceiver (OnNewEvent s roomID event nid) = userToReceiver s"
proof (cases "memberTarget event")
  case None
  show ?thesis unfolding OnNewEvent_None [OF None] by (simp add: notifyListeners_frame)
next
  case (Some u)
  obtain f t where sw: "switchMembership (jrt s) (membershipOf event) u roomID = (f, t)"
    by (cases "switchMembership (jrt s) (membershipOf event) u roomID")
  show ?thesis unfolding OnNewEvent_Some [OF Some sw] by (simp add: notifyListeners_frame)
qed

lemma OnNewEvent_globalFirst:
  assumes "receiverAt (userToReceiver s) DispatcherAllUsers \<noteq> NilReceiver"
  shows "\<exists>seg. trace (OnNewEvent s roomID event nid) = trace s @ seg \<and>
           globalFirst (receiverAt (userToReceiver s) DispatcherAllUsers) event seg"
proof -
  from OnNewEvent_trace [of event s roomID nid] obtain e t f m where
    e: "Event e = event" and
    tr: "trace (OnNewEvent s roomID event nid) =
       trace s @ dispatchTrace (userToReceiver s) (Suc (length (heap s))) (length (heap s)) e
                   (audience (userToReceiver s) t roomID)
                   (case memberTarget event of None \<Rightarrow> [] | Some u \<Rightarrow> u) f m"
    by blast
  from dispatchTrace_globalFirst [OF assms, of e] e tr show ?thesis by blast
qed

lemma replayLoop_segments:
  assumes "receiverAt (userToReceiver s) DispatcherAllUsers = g" "g \<noteq> NilReceiver"
  shows "\<exists>segs. trace (replayLoop roomID state s) = trace s @ concat segs \<and>
           list_all2 (globalFirst g) state segs"
  using assms
proof (induction state arbitrary: s)
  case Nil
  then show ?case by simp
next
  case (Cons ev state)
  let ?s1 = "OnNewEvent s roomID ev 0"
  from Cons.prems OnNewEvent_globalFirst [of s roomID ev 0] obtain seg where
    seg: "trace ?s1 = trace s @ seg" "globalFirst g ev seg" by auto
  from Cons.prems have "receiverAt (userToReceiver ?s1) DispatcherAllUsers = g" by simp
  from Cons.IH [OF this Cons.prems(2)] obtain segs where
    segs: "trace (replayLoop roomID state ?s1) = trace ?s1 @ concat segs"
      "list_all2 (globalFirst g) state segs" by blast
  have "trace (replayLoop roomID (ev # state) s) = trace s @ concat (seg # segs)"
    using seg segs by simp
  moreover have "list_all2 (globalFirst g) (ev # state) (seg # segs)"
    using seg segs by simp
  ultimately show ?case by blast
qed

lemma stateKeysWith_simps [simp]:
  "stateKeysWith m [] = []"
  "stateKeysWith m (ev # state) =
     (case memberTarget ev of
        None \<Rightarrow> stateKeysWith m state
      | Some u \<Rightarrow> if membershipOf ev = m then u # stateKeysWith m state else stateKeysWith m state)"
  by (simp_all add: stateKeysWith_def List.map_filter_simps split: option.splits)

lemma initialStateLoop_eq:
  "initialStateLoop roomID state (s, eventDatas, joined, invited) =
     (s\<lparr>heap := heap s @ map (\<lambda>ev. NewEventData ev roomID 0) state\<rparr>,
      eventDatas @ [length (heap s) ..< length (heap s) + length state],
      joined @ stateKeysWith ''join'' state,
      invited @ stateKeysWith ''invite'' state)"
proof (induction state arbitrary: s eventDatas joined invited)
  case Nil
  then show ?case by simp
next
  case (Cons ev state)
  have upt: "[length (heap s) ..< Suc (length (heap s) + length state)] =
      length (heap s) # [Suc (length (heap s)) ..< Suc (length (heap s) + length state)]"
    by (subst upt_rec) simp
  show ?case
  proof (cases "msgType ev = ''m.room.member''")
    case False
    then show ?thesis
      by (simp add: Let_def Cons.IH upt memberTarget_def del: upt_Suc)
  next
    case True
    show ?thesis
    proof (cases "msgStateKey ev")
      case None
      with True show ?thesis
        by (simp add: Let_def Cons.IH upt memberTarget_def del: upt_Suc)
    next
      case (Some u)
      with True show ?thesis
        by (simp add: Let_def Cons.IH upt memberTarget_def membershipOf_def del: upt_Suc)
    qed
  qed
qed

lemma initialNotifyLoop_trace:
  assumes "\<forall>ed \<in> set eventDatas. ed < length (heap s)" "distinct eventDatas"
  shows "\<exists>ps. length ps = length eventDatas \<and>
    trace (initialNotifyLoop inviteCount joinCount userIDs forceInitial eventDatas s) =
      trace s @ concat (map (\<lambda>(p, ed). dispatchTrace (userToReceiver s) p ed
                                (withCounts inviteCount joinCount (heap s ! ed)) userIDs [] forceInitial [])
                         (zip ps eventDatas)) \<and>
    jrt (initialNotifyLoop inviteCount joinCount userIDs forceInitial eventDatas s) = jrt s \<and>
    userToReceiver (initialNotifyLoop inviteCount joinCount userIDs forceInitial eventDatas s) =
      userToReceiver s"
  using assms
proof (induction eventDatas arbitrary: s)
  case Nil
  then show ?case by simp
next
  case (Cons ed eds)
  let ?e = "withCounts inviteCount joinCount (heap s ! ed)"
  let ?s2 = "s\<lparr>heap := (heap s) [ed := ?e]\<rparr>"
  let ?s' = "notifyListeners ?s2 ed userIDs [] forceInitial []"
  from Cons.prems have ed: "ed < length (heap s)" by simp
  then have ed2: "ed < length (heap ?s2)" by simp
  have step: "initialNotifyLoop inviteCount joinCount userIDs forceInitial (ed # eds) s =
      initialNotifyLoop inviteCount joinCount userIDs forceInitial eds ?s'"
    using ed by (simp add: Let_def withCounts_def)
  have tr: "trace ?s' = trace s @ dispatchTrace (userToReceiver s) (length (heap s)) ed ?e userIDs []
                forceInitial []"
    using ed by (simp add: notifyListeners_trace [OF ed2])
  have fr: "jrt ?s' = jrt s" "userToReceiver ?s' = userToReceiver s"
    by (simp_all add: notifyListeners_frame [OF ed2])
  have pre: "\<forall>q \<in> set eds. q < length (heap ?s')"
  proof
    fix q assume "q \<in> set eds"
    with Cons.prems have "q < length (heap ?s2)" by simp
    with notifyListeners_frame(3) [OF ed2, of userIDs "[]" forceInitial "[]"]
    show "q < length (heap ?s')" by linarith
  qed
  have same: "heap ?s' ! q = heap s ! q" if "q \<in> set eds" for q
  proof -
    from that Cons.prems have q: "q < length (heap ?s2)" "q \<noteq> ed" by auto
    from notifyListeners_frame(4) [OF ed2 q] show ?thesis using q by simp
  qed
  from Cons.prems have "distinct eds" by simp
  from Cons.IH [OF pre this] obtain ps where
    ps: "length ps = length eds"
    and ih: "trace (initialNotifyLoop inviteCount joinCount userIDs forceInitial eds ?s') =
      trace ?s' @ concat (map (\<lambda>(p, ed). dispatchTrace (userToReceiver ?s') p ed
                                (withCounts inviteCount joinCount (heap ?s' ! ed)) userIDs [] forceInitial [])
                         (zip ps eds))"
    and ihf: "jrt (initialNotifyLoop inviteCount joinCount userIDs forceInitial eds ?s') = jrt ?s'"
      "userToReceiver (initialNotifyLoop inviteCount joinCount userIDs forceInitial eds ?s') =
        userToReceiver ?s'"
    by blast
  have maps: "map (\<lambda>(p, ed). dispatchTrace (userToReceiver ?s') p ed
                                (withCounts inviteCount joinCount (heap ?s' ! ed)) userIDs [] forceInitial [])
                         (zip ps eds) =
     map (\<lambda>(p, ed). dispatchTrace (userToReceiver s) p ed
                                (withCounts inviteCount joinCount (heap s ! ed)) userIDs [] forceInitial [])
                         (zip ps eds)"
    by (rule map_cong [OF refl]) (auto simp: fr same dest: set_zip_rightD)
  let ?ps = "length (heap s) # ps"
  have "length ?ps = length (ed # eds)" using ps by simp
  moreover have "trace (initialNotifyLoop inviteCount joinCount userIDs forceInitial (ed # eds) s) =
      trace s @ concat (map (\<lambda>(p, ed). dispatchTrace (userToReceiver s) p ed
                                (withCounts inviteCount joinCount (heap s ! ed)) userIDs [] forceInitial [])
                         (zip ?ps (ed # eds)))"
    unfolding step ih maps tr by simp
  moreover have "jrt (initialNotifyLoop inviteCount joinCount userIDs forceInitial (ed # eds) s) = jrt s"
    "userToReceiver (initialNotifyLoop inviteCount joinCount userIDs forceInitial (ed # eds) s) =
      userToReceiver s"
    unfolding step using ihf fr by simp_all
  ultimately show ?case by blast
qed

lemma JoinedUsersForRoom_None:
  "JoinedUsersForRoom t roomID None = (remdups (joinedUsers t roomID), joinCountOf t roomID)"
  by (simp add: JoinedUsersForRoom_def joinCountOf_def)

lemma joinCountOf_pos: "0 < joinCountOf t roomID \<longleftrightarrow> joinedUsers t roomID \<noteq> []"
  by (simp add: joinCountOf_def)

lemma OnNewInitialRoomState_bulk:
  assumes "joinedUsers (jrt s) roomID = []"
  shows "\<exists>ps. length ps = length state \<and>
    trace (OnNewInitialRoomState s roomID state) =
      trace s @ concat (map (\<lambda>(p, ed, ev). dispatchTrace (userToReceiver s) p ed
              (withCounts (NumInvitedUsersForRoom (bulkTracker (jrt s) roomID state) roomID)
                 (joinCountOf (bulkTracker (jrt s) roomID state) roomID) (NewEventData ev roomID 0))
              (audience (userToReceiver s) (bulkTracker (jrt s) roomID state) roomID) []
              (fst (UsersJoinedRoom (jrt s) (stateKeysWith ''join'' state) roomID)) [])
           (zip ps (zip [length (heap s) ..< length (heap s) + length state] state))) \<and>
    jrt (OnNewInitialRoomState s roomID state) = bulkTracker (jrt s) roomID state \<and>
    userToReceiver (OnNewInitialRoomState s roomID state) = userToReceiver s"
proof -
  let ?t2 = "bulkTracker (jrt s) roomID state"
  let ?f = "fst (UsersJoinedRoom (jrt s) (stateKeysWith ''join'' state) roomID)"
  let ?ic = "NumInvitedUsersForRoom ?t2 roomID"
  let ?jc = "joinCountOf ?t2 roomID"
  let ?us = "audience (userToReceiver s) ?t2 roomID"
  let ?eds = "[length (heap s) ..< length (heap s) + length state]"
  let ?s2 = "s\<lparr>heap := heap s @ map (\<lambda>ev. NewEventData ev roomID 0) state, jrt := ?t2\<rparr>"
  have unfold: "OnNewInitialRoomState s roomID state = initialNotifyLoop ?ic ?jc ?us ?f ?eds ?s2"
    using assms
    by (simp add: OnNewInitialRoomState_def JoinedUsersForRoom_None joinCountOf_pos
        initialStateLoop_eq JoinedUsersForRoom_audience bulkTracker_def Let_def split_beta)
  have pre: "\<forall>ed \<in> set ?eds. ed < length (heap ?s2)" by simp
  from initialNotifyLoop_trace [OF pre distinct_upt, of ?ic ?jc ?us ?f] obtain ps where
    ps: "length ps = length ?eds"
    and tr: "trace (initialNotifyLoop ?ic ?jc ?us ?f ?eds ?s2) =
      trace ?s2 @ concat (map (\<lambda>(p, ed). dispatchTrace (userToReceiver ?s2) p ed
                                (withCounts ?ic ?jc (heap ?s2 ! ed)) ?us [] ?f [])
                         (zip ps ?eds))"
    and fr: "jrt (initialNotifyLoop ?ic ?jc ?us ?f ?eds ?s2) = jrt ?s2"
      "userToReceiver (initialNotifyLoop ?ic ?jc ?us ?f ?eds ?s2) = userToReceiver ?s2"
    by blast
  have maps: "map (\<lambda>(p, ed). dispatchTrace (userToReceiver ?s2) p ed
                                (withCounts ?ic ?jc (heap ?s2 ! ed)) ?us [] ?f [])
                         (zip ps ?eds) =
     map (\<lambda>(p, ed, ev). dispatchTrace (userToReceiver s) p ed
              (withCounts ?ic ?jc (NewEventData ev roomID 0)) ?us [] ?f [])
           (zip ps (zip ?eds state))"
    using ps by (intro nth_equalityI) (simp_all add: nth_append)
  have "length ps = length state" using ps by simp
  with tr fr maps show ?thesis unfolding unfold by (intro exI [of _ ps]) simp
qed

lemma delivered_append [simp]: "delivered (a @ b) = delivered a @ delivered b"
  by (induction a rule: delivered.induct) simp_all

lemma delivered_concat: "delivered (concat segs) = concat (map delivered segs)"
  by (induction segs) simp_all

lemma delivered_loopCalls:
  "delivered (loopCalls reg t f e p us) =
     map (\<lambda>u. (u, receiverAt reg u, Event e, InviteCount e, JoinCount e)) us"
  by (induction us arbitrary: p) simp_all

lemma delivered_dispatchTrace_bulk:
  "delivered (dispatchTrace reg p ed e us [] f []) =
     map (\<lambda>u. (u, receiverAt reg u, Event e, InviteCount e, JoinCount e))
       ((if receiverAt reg DispatcherAllUsers \<noteq> NilReceiver then [DispatcherAllUsers] else []) @
        subscribed reg us)"
  by (simp add: dispatchTrace_def globalCalls_def delivered_loopCalls fallbackCalls_def
      fallbackActive_def)

lemma replayLoop_foldl:
  "replayLoop roomID state s = foldl (\<lambda>s ev. OnNewEvent s roomID ev 0) s state"
  by (induction state arbitrary: s) simp_all

lemma withCounts_sel [simp]:
  "Event (withCounts ic jc e) = Event e"
  "InviteCount (withCounts ic jc e) = ic"
  "JoinCount (withCounts ic jc e) = jc"
  by (simp_all add: withCounts_def)

text \<open>
  C8. If the room has joined users in the tracker already, \<open>OnNewInitialRoomState\<close>
  logs a warning and then does what \<open>OnNewEvent\<close> does for every state event in turn,
  with position 0. Otherwise the tracker becomes the old one with the state keys of
  the \<open>join\<close> events joined and those of the \<open>invite\<close> events invited, the registry
  is unchanged, and every state event, in order, is passed to the global receiver (if
  any) and then to every joined user with a receiver, each time with the invite count
  and the join count of the room after the update. Either way the result is a state:
  the method has no panic of its own.
\<close>

theorem initial_state_paths:
  "(0 < snd (JoinedUsersForRoom (jrt s) roomID None) \<longrightarrow>
      OnNewInitialRoomState s roomID state =
        foldl (\<lambda>s ev. OnNewEvent s roomID ev 0)
          (s\<lparr>trace := trace s @
              [LogWarn ''OnNewInitialRoomState but have entries in JoinedRoomsTracker already, this should be impossible. Degrading to live events'']\<rparr>)
          state) \<and>
   (\<not> 0 < snd (JoinedUsersForRoom (jrt s) roomID None) \<longrightarrow>
      jrt (OnNewInitialRoomState s roomID state) =
        UsersInvitedToRoom (snd (UsersJoinedRoom (jrt s) (stateKeysWith ''join'' state) roomID))
          (stateKeysWith ''invite'' state) roomID \<and>
      userToReceiver (OnNewInitialRoomState s roomID state) = userToReceiver s \<and>
      delivered (trace (OnNewInitialRoomState s roomID state)) =
        delivered (trace s) @
        concat (map (\<lambda>ev.
            map (\<lambda>u. (u, receiverAt (userToReceiver s) u, ev,
                        NumInvitedUsersForRoom (jrt (OnNewInitialRoomState s roomID state)) roomID,
                        snd (JoinedUsersForRoom (jrt (OnNewInitialRoomState s roomID state)) roomID None)))
              ((if receiverAt (userToReceiver s) DispatcherAllUsers \<noteq> NilReceiver
                then [DispatcherAllUsers] else []) @
               fst (JoinedUsersForRoom (jrt (OnNewInitialRoomState s roomID state)) roomID
                      (Some (audienceFilter s)))))
          state))"
proof (intro conjI impI)
  assume "0 < snd (JoinedUsersForRoom (jrt s) roomID None)"
  then show "OnNewInitialRoomState s roomID state =
        foldl (\<lambda>s ev. OnNewEvent s roomID ev 0)
          (s\<lparr>trace := trace s @
              [LogWarn ''OnNewInitialRoomState but have entries in JoinedRoomsTracker already, this should be impossible. Degrading to live events'']\<rparr>)
          state"
    by (simp add: OnNewInitialRoomState_def JoinedUsersForRoom_None replayLoop_foldl)
next
  assume "\<not> 0 < snd (JoinedUsersForRoom (jrt s) roomID None)"
  then have empty: "joinedUsers (jrt s) roomID = []"
    by (simp add: JoinedUsersForRoom_None joinCountOf_pos)
  let ?s' = "OnNewInitialRoomState s roomID state"
  let ?t2 = "bulkTracker (jrt s) roomID state"
  from OnNewInitialRoomState_bulk [OF empty, of state] obtain ps where
    ps: "length ps = length state"
    and tr: "trace ?s' =
      trace s @ concat (map (\<lambda>(p, ed, ev). dispatchTrace (userToReceiver s) p ed
              (withCounts (NumInvitedUsersForRoom ?t2 roomID) (joinCountOf ?t2 roomID)
                 (NewEventData ev roomID 0))
              (audience (userToReceiver s) ?t2 roomID) []
              (fst (UsersJoinedRoom (jrt s) (stateKeysWith ''join'' state) roomID)) [])
           (zip ps (zip [length (heap s) ..< length (heap s) + length state] state)))"
    and fr: "jrt ?s' = ?t2" "userToReceiver ?s' = userToReceiver s"
    by blast
  show "jrt ?s' =
        UsersInvitedToRoom (snd (UsersJoinedRoom (jrt s) (stateKeysWith ''join'' state) roomID))
          (stateKeysWith ''invite'' state) roomID"
    using fr by (simp add: bulkTracker_def)
  show "userToReceiver ?s' = userToReceiver s" by (rule fr)
  have segs: "map delivered (map (\<lambda>(p, ed, ev). dispatchTrace (userToReceiver s) p ed
              (withCounts (NumInvitedUsersForRoom ?t2 roomID) (joinCountOf ?t2 roomID)
                 (NewEventData ev roomID 0))
              (audience (userToReceiver s) ?t2 roomID) []
              (fst (UsersJoinedRoom (jrt s) (stateKeysWith ''join'' state) roomID)) [])
           (zip ps (zip [length (heap s) ..< length (heap s) + length state] state))) =
      map (\<lambda>ev.
            map (\<lambda>u. (u, receiverAt (userToReceiver s) u, ev,
                        NumInvitedUsersForRoom ?t2 roomID, joinCountOf ?t2 roomID))
              ((if receiverAt (userToReceiver s) DispatcherAllUsers \<noteq> NilReceiver
                then [DispatcherAllUsers] else []) @
               audience (userToReceiver s) ?t2 roomID))
          state"
    using ps by (intro nth_equalityI) (simp_all add: delivered_dispatchTrace_bulk)
  show "delivered (trace ?s') =
        delivered (trace s) @
        concat (map (\<lambda>ev.
            map (\<lambda>u. (u, receiverAt (userToReceiver s) u, ev,
                        NumInvitedUsersForRoom (jrt ?s') roomID,
                        snd (JoinedUsersForRoom (jrt ?s') roomID None)))
              ((if receiverAt (userToReceiver s) DispatcherAllUsers \<noteq> NilReceiver
                then [DispatcherAllUsers] else []) @
               fst (JoinedUsersForRoom (jrt ?s') roomID (Some (audienceFilter s)))))
          state)"
    unfolding tr fr
    by (simp only: delivered_append delivered_concat segs JoinedUsersForRoom_None
        JoinedUsersForRoom_audience fst_conv snd_conv)
qed

theorem initial_state_paths_witness:
  "0 < snd (JoinedUsersForRoom (jrt exMachine) ''!r'' None) \<and>
   OnNewInitialRoomState exMachine ''!r'' [memberEvent ''@a'' ''leave'', messageEvent] =
     OnNewEvent
       (OnNewEvent
          (exMachine\<lparr>trace := [LogWarn ''OnNewInitialRoomState but have entries in JoinedRoomsTracker already, this should be impossible. Degrading to live events'']\<rparr>)
          ''!r'' (memberEvent ''@a'' ''leave'') 0)
       ''!r'' messageEvent 0 \<and>
   \<not> 0 < snd (JoinedUsersForRoom (jrt exFreshMachine) ''!r'' None) \<and>
   delivered (trace (OnNewInitialRoomState exFreshMachine ''!r''
       [memberEvent ''@a'' ''join'', memberEvent ''@d'' ''invite'', messageEvent])) =
     [(''-'', GlobalCache (Some 0), memberEvent ''@a'' ''join'', 1, 1),
      (''@a'', UserCache (Some 1), memberEvent ''@a'' ''join'', 1, 1),
      (''-'', GlobalCache (Some 0), memberEvent ''@d'' ''invite'', 1, 1),
      (''@a'', UserCache (Some 1), memberEvent ''@d'' ''invite'', 1, 1),
      (''-'', GlobalCache (Some 0), messageEvent, 1, 1),
      (''@a'', UserCache (Some 1), messageEvent, 1, 1)]"
proof -
  have h1: "0 < snd (JoinedUsersForRoom (jrt exMachine) ''!r'' None)"
    by (simp add: exMachine_def exTracker_def JoinedUsersForRoom_def)
  have h2: "\<not> 0 < snd (JoinedUsersForRoom (jrt exFreshMachine) ''!r'' None)"
    by (simp add: ex_defs exMachine_def NewJoinedRoomsTracker_def JoinedUsersForRoom_def)
  from initial_state_paths [THEN conjunct1, THEN mp, OF h1,
      of "[memberEvent ''@a'' ''leave'', messageEvent]"]
  have c1: "OnNewInitialRoomState exMachine ''!r'' [memberEvent ''@a'' ''leave'', messageEvent] =
     OnNewEvent
       (OnNewEvent
          (exMachine\<lparr>trace := [LogWarn ''OnNewInitialRoomState but have entries in JoinedRoomsTracker already, this should be impossible. Degrading to live events'']\<rparr>)
          ''!r'' (memberEvent ''@a'' ''leave'') 0)
       ''!r'' messageEvent 0"
    by (simp add: exMachine_def)
  note p2 = initial_state_paths [THEN conjunct2, THEN mp, OF h2,
      of "[memberEvent ''@a'' ''join'', memberEvent ''@d'' ''invite'', messageEvent]"]
  have c2: "delivered (trace (OnNewInitialRoomState exFreshMachine ''!r''
       [memberEvent ''@a'' ''join'', memberEvent ''@d'' ''invite'', messageEvent])) =
     [(''-'', GlobalCache (Some 0), memberEvent ''@a'' ''join'', 1, 1),
      (''@a'', UserCache (Some 1), memberEvent ''@a'' ''join'', 1, 1),
      (''-'', GlobalCache (Some 0), memberEvent ''@d'' ''invite'', 1, 1),
      (''@a'', UserCache (Some 1), memberEvent ''@d'' ''invite'', 1, 1),
      (''-'', GlobalCache (Some 0), messageEvent, 1, 1),
      (''@a'', UserCache (Some 1), messageEvent, 1, 1)]"
    unfolding p2 [THEN conjunct2, THEN conjunct2] p2 [THEN conjunct1]
    by (simp add: ex_defs exMachine_def NewJoinedRoomsTracker_def JoinedUsersForRoom_def
        NumInvitedUsersForRoom_def UsersJoinedRoom_def UsersInvitedToRoom_def audienceFilter_def
        ReceiverForUser_def receiverAt_def DispatcherAllUsers_def)
  from h1 h2 c1 c2 show ?thesis by blast
qed

lemma OnNewInitialRoomState_segments:
  assumes "receiverAt (userToReceiver s) DispatcherAllUsers = g" "g \<noteq> NilReceiver"
  shows "\<exists>warn segs. trace (OnNewInitialRoomState s roomID state) = trace s @ warn @ concat segs \<and>
     (warn = [] \<or> (\<exists>m. warn = [LogWarn m])) \<and> list_all2 (globalFirst g) state segs"
proof (cases "joinedUsers (jrt s) roomID = []")
  case True
  let ?t2 = "bulkTracker (jrt s) roomID state"
  let ?seg = "\<lambda>(p, ed, ev). dispatchTrace (userToReceiver s) p ed
              (withCounts (NumInvitedUsersForRoom ?t2 roomID) (joinCountOf ?t2 roomID)
                 (NewEventData ev roomID 0))
              (audience (userToReceiver s) ?t2 roomID) []
              (fst (UsersJoinedRoom (jrt s) (stateKeysWith ''join'' state) roomID)) []"
  from OnNewInitialRoomState_bulk [OF True, of state] obtain ps where
    ps: "length ps = length state"
    and tr: "trace (OnNewInitialRoomState s roomID state) =
      trace s @ concat (map ?seg
           (zip ps (zip [length (heap s) ..< length (heap s) + length state] state)))"
    by blast
  let ?segs = "map ?seg (zip ps (zip [length (heap s) ..< length (heap s) + length state] state))"
  have "list_all2 (globalFirst g) state ?segs"
    unfolding list_all2_conv_all_nth
  proof (intro conjI allI impI)
    show "length state = length ?segs" using ps by simp
    fix i assume i: "i < length state"
    have "globalFirst (receiverAt (userToReceiver s) DispatcherAllUsers)
        (Event (withCounts (NumInvitedUsersForRoom ?t2 roomID) (joinCountOf ?t2 roomID)
                 (NewEventData (state ! i) roomID 0)))
        (?seg (ps ! i, length (heap s) + i, state ! i))"
      unfolding prod.case using assms by (intro dispatchTrace_globalFirst) simp
    then show "globalFirst g (state ! i) (?segs ! i)"
      using i ps assms by simp
  qed
  with tr show ?thesis by (intro exI [of _ "[]"] exI [of _ ?segs]) simp
next
  case False
  let ?w = "LogWarn ''OnNewInitialRoomState but have entries in JoinedRoomsTracker already, this should be impossible. Degrading to live events''"
  let ?s0 = "s\<lparr>trace := trace s @ [?w]\<rparr>"
  from False have unfold: "OnNewInitialRoomState s roomID state = replayLoop roomID state ?s0"
    by (simp add: OnNewInitialRoomState_def JoinedUsersForRoom_None joinCountOf_pos)
  from assms have "receiverAt (userToReceiver ?s0) DispatcherAllUsers = g" by simp
  from replayLoop_segments [OF this assms(2), of roomID state] obtain segs where
    "trace (replayLoop roomID state ?s0) = trace ?s0 @ concat segs"
    "list_all2 (globalFirst g) state segs" by blast
  then show ?thesis
    unfolding unfold by (intro exI [of _ "[?w]"] exI [of _ segs]) simp
qed

text \<open>
  C4. With a receiver \<open>g\<close> under the global key, every dispatch calls \<open>g\<close> before any
  other receiver: the first thing \<open>notifyListeners\<close>, \<open>OnNewEvent\<close>,
  \<open>OnEphemeralEvent\<close> and \<open>OnReceipt\<close> add to the trace is the call on \<open>g\<close>, and what
  \<open>OnNewInitialRoomState\<close> adds (after the warning, in the degraded path) splits into
  one stretch per state event, in order, each starting with the call on \<open>g\<close> for that
  event and holding calls for that event only.
\<close>

theorem global_receiver_first:
  assumes "receiverAt (userToReceiver s) DispatcherAllUsers = g" and "g \<noteq> NilReceiver"
  shows
   "(ed < length (heap s) \<longrightarrow>
      (\<exists>rest. trace (notifyListeners s ed userIDs targetUser shouldForceInitial membership) =
         trace s @ Invoke DispatcherAllUsers g (OnNewEventCall ed (heap s ! ed)) # rest)) \<and>
    (\<exists>seg. trace (OnNewEvent s roomID event nid) = trace s @ seg \<and> globalFirst g event seg) \<and>
    (\<exists>warn segs. trace (OnNewInitialRoomState s roomID state) = trace s @ warn @ concat segs \<and>
       (warn = [] \<or> (\<exists>m. warn = [LogWarn m])) \<and> list_all2 (globalFirst g) state segs) \<and>
    trace (OnEphemeralEvent s roomID ephEvent) =
      trace s @ Invoke DispatcherAllUsers g (OnEphemeralEventCall roomID ephEvent) #
      map (\<lambda>u. Invoke u (receiverAt (userToReceiver s) u) (OnEphemeralEventCall roomID ephEvent))
        (fst (JoinedUsersForRoom (jrt s) roomID (Some (audienceFilter s)))) \<and>
    trace (OnReceipt s receipt) =
      trace s @ Invoke DispatcherAllUsers g (OnReceiptCall receipt) #
      map (\<lambda>u. Invoke u (receiverAt (userToReceiver s) u) (OnReceiptCall receipt))
        (fst (JoinedUsersForRoom (jrt s) (receiptRoomID receipt) (Some (audienceFilter s))))"
proof (intro conjI impI)
  assume "ed < length (heap s)"
  then show "\<exists>rest. trace (notifyListeners s ed userIDs targetUser shouldForceInitial membership) =
         trace s @ Invoke DispatcherAllUsers g (OnNewEventCall ed (heap s ! ed)) # rest"
    using assms by (simp add: notifyListeners_trace dispatchTrace_def globalCalls_def)
next
  show "\<exists>seg. trace (OnNewEvent s roomID event nid) = trace s @ seg \<and> globalFirst g event seg"
    using OnNewEvent_globalFirst [of s roomID event nid] assms by simp
next
  show "\<exists>warn segs. trace (OnNewInitialRoomState s roomID state) = trace s @ warn @ concat segs \<and>
       (warn = [] \<or> (\<exists>m. warn = [LogWarn m])) \<and> list_all2 (globalFirst g) state segs"
    using assms by (rule OnNewInitialRoomState_segments)
next
  show "trace (OnEphemeralEvent s roomID ephEvent) =
      trace s @ Invoke DispatcherAllUsers g (OnEphemeralEventCall roomID ephEvent) #
      map (\<lambda>u. Invoke u (receiverAt (userToReceiver s) u) (OnEphemeralEventCall roomID ephEvent))
        (fst (JoinedUsersForRoom (jrt s) roomID (Some (audienceFilter s))))"
    using assms by (simp add: OnEphemeralEvent_eq globalCalls_def JoinedUsersForRoom_audience)
next
  show "trace (OnReceipt s receipt) =
      trace s @ Invoke DispatcherAllUsers g (OnReceiptCall receipt) #
      map (\<lambda>u. Invoke u (receiverAt (userToReceiver s) u) (OnReceiptCall receipt))
        (fst (JoinedUsersForRoom (jrt s) (receiptRoomID receipt) (Some (audienceFilter s))))"
    using assms by (simp add: OnReceipt_eq globalCalls_def JoinedUsersForRoom_audience)
qed

theorem global_receiver_first_witness:
  "receiverAt (userToReceiver exHeapMachine) DispatcherAllUsers = GlobalCache (Some 0) \<and>
   GlobalCache (Some 0) \<noteq> NilReceiver \<and>
   0 < length (heap exHeapMachine) \<and>
   (\<exists>rest. trace (notifyListeners exHeapMachine 0 [''@a'', ''@b''] ''@b'' False ''leave'') =
      trace exHeapMachine @
      Invoke DispatcherAllUsers (GlobalCache (Some 0)) (OnNewEventCall 0 (heap exHeapMachine ! 0)) # rest) \<and>
   (\<exists>seg. trace (OnNewEvent exHeapMachine ''!r'' (memberEvent ''@a'' ''leave'') 2) =
      trace exHeapMachine @ seg \<and>
      globalFirst (GlobalCache (Some 0)) (memberEvent ''@a'' ''leave'') seg) \<and>
   (\<exists>warn segs. trace (OnNewInitialRoomState exHeapMachine ''!r'' [memberEvent ''@a'' ''leave'', messageEvent]) =
      trace exHeapMachine @ warn @ concat segs \<and>
      (warn = [] \<or> (\<exists>m. warn = [LogWarn m])) \<and>
      list_all2 (globalFirst (GlobalCache (Some 0))) [memberEvent ''@a'' ''leave'', messageEvent] segs) \<and>
   trace (OnEphemeralEvent exHeapMachine ''!r'' messageEvent) =
     [Invoke ''-'' (GlobalCache (Some 0)) (OnEphemeralEventCall ''!r'' messageEvent),
      Invoke ''@a'' (UserCache (Some 1)) (OnEphemeralEventCall ''!r'' messageEvent),
      Invoke ''@c'' (UserCache (Some 2)) (OnEphemeralEventCall ''!r'' messageEvent)]"
proof -
  have h1: "receiverAt (userToReceiver exHeapMachine) DispatcherAllUsers = GlobalCache (Some 0)"
    by (simp add: ex_defs eval_defs)
  have h2: "GlobalCache (Some 0) \<noteq> NilReceiver" by simp
  have h3: "0 < length (heap exHeapMachine)" by (simp add: ex_defs)
  note t = global_receiver_first [OF h1 h2, where ed = 0 and userIDs = "[''@a'', ''@b'']"
      and targetUser = "''@b''" and shouldForceInitial = False and membership = "''leave''"
      and roomID = "''!r''" and event = "memberEvent ''@a'' ''leave''" and nid = 2
      and state = "[memberEvent ''@a'' ''leave'', messageEvent]" and ephEvent = messageEvent]
  have e: "trace (OnEphemeralEvent exHeapMachine ''!r'' messageEvent) =
     [Invoke ''-'' (GlobalCache (Some 0)) (OnEphemeralEventCall ''!r'' messageEvent),
      Invoke ''@a'' (UserCache (Some 1)) (OnEphemeralEventCall ''!r'' messageEvent),
      Invoke ''@c'' (UserCache (Some 2)) (OnEphemeralEventCall ''!r'' messageEvent)]"
    using t [THEN conjunct2, THEN conjunct2, THEN conjunct2, THEN conjunct1]
    by (simp add: ex_defs exMachine_def exTracker_def JoinedUsersForRoom_def audienceFilter_def
        ReceiverForUser_def receiverAt_def DispatcherAllUsers_def)
  from t h3 have "\<exists>rest. trace (notifyListeners exHeapMachine 0 [''@a'', ''@b''] ''@b'' False ''leave'') =
      trace exHeapMachine @
      Invoke DispatcherAllUsers (GlobalCache (Some 0)) (OnNewEventCall 0 (heap exHeapMachine ! 0)) # rest"
    by blast
  with h1 h2 h3 e t show ?thesis by blast
qed

lemma callsTo_append [simp]: "callsTo u (a @ b) = callsTo u a @ callsTo u b"
  by (induction u a rule: callsTo.induct) simp_all

lemma callsTo_globalCalls:
  "u \<noteq> DispatcherAllUsers \<Longrightarrow> callsTo u (globalCalls reg c) = []"
  by (simp add: globalCalls_def)

lemma callsTo_loopCalls_notin:
  "u \<notin> set us \<Longrightarrow> callsTo u (loopCalls reg t f e p us) = []"
  by (induction us arbitrary: p) auto

lemma callsTo_loopCalls_in:
  "distinct us \<Longrightarrow> u \<in> set us \<Longrightarrow>
   \<exists>q. p \<le> q \<and> q < p + length us \<and>
     callsTo u (loopCalls reg t f e p us) = [(receiverAt reg u, OnNewEventCall q (copyFor t f e u))]"
proof (induction us arbitrary: p)
  case Nil
  then show ?case by simp
next
  case (Cons a us)
  show ?case
  proof (cases "a = u")
    case True
    with Cons.prems have "u \<notin> set us" by simp
    then show ?thesis using True
      by (intro exI [of _ p]) (simp add: callsTo_loopCalls_notin)
  next
    case False
    with Cons.prems have "distinct us" "u \<in> set us" by simp_all
    from Cons.IH [OF this, of "Suc p"] obtain q where
      "Suc p \<le> q" "q < Suc p + length us"
      "callsTo u (loopCalls reg t f e (Suc p) us) = [(receiverAt reg u, OnNewEventCall q (copyFor t f e u))]"
      by blast
    then show ?thesis using False by (intro exI [of _ q]) simp
  qed
qed

lemma callsTo_fallbackCalls:
  "callsTo u (fallbackCalls reg ed e aud t f m) =
     (if t = u \<and> fallbackActive aud t m \<and> receiverAt reg t \<noteq> NilReceiver
      then [(receiverAt reg t, OnNewEventCall ed (if f then e\<lparr>ForceInitial := True\<rparr> else e))]
      else [])"
  by (simp add: fallbackCalls_def)

lemma audience_set:
  "u \<in> set (audience reg t roomID) \<longleftrightarrow>
     u \<in> set (joinedUsers t roomID) \<and> u \<noteq> DispatcherAllUsers \<and> receiverAt reg u \<noteq> NilReceiver"
  by (auto simp: audience_def)

lemma audience_distinct [simp]: "distinct (audience reg t roomID)"
  by (simp add: audience_def)

lemma OnNewEvent_jrt:
  "jrt (OnNewEvent s roomID event nid) =
     (case memberTarget event of None \<Rightarrow> jrt s
      | Some u \<Rightarrow> snd (switchMembership (jrt s) (membershipOf event) u roomID))"
proof (cases "memberTarget event")
  case None
  show ?thesis unfolding OnNewEvent_None [OF None] by (simp add: notifyListeners_frame None)
next
  case (Some u)
  obtain f t where sw: "switchMembership (jrt s) (membershipOf event) u roomID = (f, t)"
    by (cases "switchMembership (jrt s) (membershipOf event) u roomID")
  show ?thesis unfolding OnNewEvent_Some [OF Some sw] by (simp add: notifyListeners_frame Some sw)
qed

lemma OnNewEvent_trace_None:
  assumes "memberTarget event = None"
  shows "trace (OnNewEvent s roomID event nid) =
    trace s @ dispatchTrace (userToReceiver s) (Suc (length (heap s))) (length (heap s))
      ((NewEventData event roomID nid)\<lparr>JoinCount := joinCountOf (jrt s) roomID\<rparr>)
      (audience (userToReceiver s) (jrt s) roomID) [] False []"
  unfolding OnNewEvent_None [OF assms] by (simp add: notifyListeners_trace)

lemma OnNewEvent_trace_Some:
  assumes "memberTarget event = Some u"
    and "switchMembership (jrt s) (membershipOf event) u roomID = (f, t)"
  shows "trace (OnNewEvent s roomID event nid) =
    trace s @ dispatchTrace (userToReceiver s) (Suc (length (heap s))) (length (heap s))
      ((NewEventData event roomID nid)
         \<lparr>InviteCount := NumInvitedUsersForRoom t roomID, JoinCount := joinCountOf t roomID\<rparr>)
      (audience (userToReceiver s) t roomID) u f (membershipOf event)"
  unfolding OnNewEvent_Some [OF assms] by (simp add: notifyListeners_trace)

lemma callsTo_dispatchTrace:
  assumes "u \<noteq> DispatcherAllUsers"
  shows "callsTo u (dispatchTrace reg p ed e (audience reg tr roomID) t f m) =
     callsTo u (loopCalls reg t f e p (audience reg tr roomID)) @
     callsTo u (fallbackCalls reg ed e (audience reg tr roomID) t f m)"
  using assms by (simp add: dispatchTrace_def callsTo_globalCalls)

lemma switchMembership_invite:
  "switchMembership t ''invite'' u roomID = (False, UsersInvitedToRoom t [u] roomID)"
  by (simp add: switchMembership_def)

lemma switchMembership_join:
  "switchMembership t ''join'' u roomID =
     (u \<notin> set (joinedUsers t roomID), snd (UsersJoinedRoom t [u] roomID))"
  by (simp add: switchMembership_def UserJoinedRoom_def UsersJoinedRoom_def Let_def)

lemma joined_after_join: "u \<in> set (joinedUsers (snd (UsersJoinedRoom t [u] roomID)) roomID)"
  by (simp add: UsersJoinedRoom_def)

lemma joined_other:
  "v \<noteq> u \<Longrightarrow>
   u \<in> set (joinedUsers (snd (switchMembership t m v roomID)) roomID) \<longleftrightarrow>
   u \<in> set (joinedUsers t roomID)"
  by (auto simp: switchMembership_def UsersInvitedToRoom_def UserJoinedRoom_def UsersJoinedRoom_def
      UserLeftRoom_def Let_def)

lemma invited_after_invite:
  "u \<notin> set (invitedUsers t roomID) \<Longrightarrow>
   NumInvitedUsersForRoom (UsersInvitedToRoom t [u] roomID) roomID =
     NumInvitedUsersForRoom t roomID + 1"
  by (simp add: NumInvitedUsersForRoom_def UsersInvitedToRoom_def length_remdups_card_conv)

lemma joined_after_invite:
  "u \<notin> set (joinedUsers (UsersInvitedToRoom t [u] roomID) roomID)"
  by (simp add: UsersInvitedToRoom_def)

text \<open>
  C5. If the target user of \<open>notifyListeners\<close> (not the empty string) is not among the
  users the loop notified, the event goes to the receiver registered for the target
  user, if there is one, through the original pointer and after all other calls, unless
  the membership is exactly \<open>invite\<close>: then no such call is made. So, when a user who is
  neither joined nor invited (and is not the reserved key) gets an invite, \<open>OnNewEvent\<close>
  makes no call under that user's key, and the invite count of the room goes up by one
  (from 0 to 1 in a room without invites).
\<close>

theorem invite_fallback_suppressed:
  "(ed < length (heap s) \<and> targetUser \<noteq> [] \<and>
    targetUser \<notin> set (subscribed (userToReceiver s) userIDs) \<longrightarrow>
      trace (notifyListeners s ed userIDs targetUser f membership) =
        trace s @ globalCalls (userToReceiver s) (OnNewEventCall ed (heap s ! ed)) @
        loopCalls (userToReceiver s) targetUser f (heap s ! ed) (length (heap s))
          (subscribed (userToReceiver s) userIDs) @
        (if membership \<noteq> ''invite'' \<and> receiverAt (userToReceiver s) targetUser \<noteq> NilReceiver
         then [Invoke targetUser (receiverAt (userToReceiver s) targetUser)
                 (OnNewEventCall ed (if f then (heap s ! ed)\<lparr>ForceInitial := True\<rparr> else heap s ! ed))]
         else []) \<and>
      callsTo targetUser
        (loopCalls (userToReceiver s) targetUser f (heap s ! ed) (length (heap s))
           (subscribed (userToReceiver s) userIDs)) = []) \<and>
   (memberTarget event = Some U \<and> membershipOf event = ''invite'' \<and> U \<noteq> DispatcherAllUsers \<and>
    U \<notin> set (joinedUsers (jrt s) roomID) \<and> U \<notin> set (invitedUsers (jrt s) roomID) \<longrightarrow>
      callsTo U (drop (length (trace s)) (trace (OnNewEvent s roomID event nid))) = [] \<and>
      NumInvitedUsersForRoom (jrt (OnNewEvent s roomID event nid)) roomID =
        NumInvitedUsersForRoom (jrt s) roomID + 1)"
proof (intro conjI impI)
  assume a: "ed < length (heap s) \<and> targetUser \<noteq> [] \<and>
    targetUser \<notin> set (subscribed (userToReceiver s) userIDs)"
  then show "trace (notifyListeners s ed userIDs targetUser f membership) =
        trace s @ globalCalls (userToReceiver s) (OnNewEventCall ed (heap s ! ed)) @
        loopCalls (userToReceiver s) targetUser f (heap s ! ed) (length (heap s))
          (subscribed (userToReceiver s) userIDs) @
        (if membership \<noteq> ''invite'' \<and> receiverAt (userToReceiver s) targetUser \<noteq> NilReceiver
         then [Invoke targetUser (receiverAt (userToReceiver s) targetUser)
                 (OnNewEventCall ed (if f then (heap s ! ed)\<lparr>ForceInitial := True\<rparr> else heap s ! ed))]
         else [])"
    by (simp add: notifyListeners_trace dispatchTrace_def fallbackCalls_def fallbackActive_def)
  from a show "callsTo targetUser
        (loopCalls (userToReceiver s) targetUser f (heap s ! ed) (length (heap s))
           (subscribed (userToReceiver s) userIDs)) = []"
    by (simp add: callsTo_loopCalls_notin)
next
  assume a: "memberTarget event = Some U \<and> membershipOf event = ''invite'' \<and> U \<noteq> DispatcherAllUsers \<and>
    U \<notin> set (joinedUsers (jrt s) roomID) \<and> U \<notin> set (invitedUsers (jrt s) roomID)"
  let ?t = "UsersInvitedToRoom (jrt s) [U] roomID"
  from a have sw: "switchMembership (jrt s) (membershipOf event) U roomID = (False, ?t)"
    by (simp add: switchMembership_invite)
  from a have tgt: "memberTarget event = Some U" by simp
  have notaud: "U \<notin> set (audience (userToReceiver s) ?t roomID)"
    by (simp add: audience_set joined_after_invite)
  show "callsTo U (drop (length (trace s)) (trace (OnNewEvent s roomID event nid))) = []"
    using a notaud
    by (simp add: OnNewEvent_trace_Some [OF tgt sw] callsTo_dispatchTrace callsTo_loopCalls_notin
        callsTo_fallbackCalls fallbackActive_def)
  show "NumInvitedUsersForRoom (jrt (OnNewEvent s roomID event nid)) roomID =
        NumInvitedUsersForRoom (jrt s) roomID + 1"
    using a by (simp add: OnNewEvent_jrt switchMembership_invite invited_after_invite)
qed

theorem invite_fallback_suppressed_witness:
  "0 < length (heap exHeapMachine) \<and> ''@c'' \<noteq> [] \<and>
   ''@c'' \<notin> set (subscribed (userToReceiver exHeapMachine) [''@a'', ''@b'']) \<and>
   callsTo ''@c'' (trace (notifyListeners exHeapMachine 0 [''@a'', ''@b''] ''@c'' False ''leave'')) =
     [(UserCache (Some 2), OnNewEventCall 0 (NewEventData messageEvent ''!r'' 1))] \<and>
   callsTo ''@c'' (trace (notifyListeners exHeapMachine 0 [''@a'', ''@b''] ''@c'' False ''invite'')) = [] \<and>
   memberTarget (memberEvent ''@u'' ''invite'') = Some ''@u'' \<and>
   membershipOf (memberEvent ''@u'' ''invite'') = ''invite'' \<and>
   ''@u'' \<noteq> DispatcherAllUsers \<and>
   ''@u'' \<notin> set (joinedUsers (jrt exInvitee) ''!r'') \<and>
   ''@u'' \<notin> set (invitedUsers (jrt exInvitee) ''!r'') \<and>
   receiverAt (userToReceiver exInvitee) ''@u'' = UserCache (Some 5) \<and>
   callsTo ''@u'' (drop (length (trace exInvitee))
      (trace (OnNewEvent exInvitee ''!r'' (memberEvent ''@u'' ''invite'') 1))) = [] \<and>
   NumInvitedUsersForRoom (jrt (OnNewEvent exInvitee ''!r'' (memberEvent ''@u'' ''invite'') 1)) ''!r'' = 1"
proof -
  have h1: "0 < length (heap exHeapMachine) \<and> ''@c'' \<noteq> [] \<and>
     ''@c'' \<notin> set (subscribed (userToReceiver exHeapMachine) [''@a'', ''@b''])"
    by (simp add: ex_defs exMachine_def receiverAt_def)
  have h2: "memberTarget (memberEvent ''@u'' ''invite'') = Some ''@u'' \<and>
     membershipOf (memberEvent ''@u'' ''invite'') = ''invite'' \<and>
     ''@u'' \<noteq> DispatcherAllUsers \<and>
     ''@u'' \<notin> set (joinedUsers (jrt exInvitee) ''!r'') \<and>
     ''@u'' \<notin> set (invitedUsers (jrt exInvitee) ''!r'')"
    by (simp add: exInvitee_def Register_def NewDispatcher_def NewJoinedRoomsTracker_def
        DispatcherAllUsers_def)
  have r: "receiverAt (userToReceiver exInvitee) ''@u'' = UserCache (Some 5)"
    by (simp add: exInvitee_def Register_def NewDispatcher_def receiverAt_def)
  have n0: "NumInvitedUsersForRoom (jrt exInvitee) ''!r'' = 0"
    by (simp add: exInvitee_def Register_def NewDispatcher_def NewJoinedRoomsTracker_def
        NumInvitedUsersForRoom_def)
  note p1 = invite_fallback_suppressed [THEN conjunct1, THEN mp, OF h1]
  have c1: "callsTo ''@c'' (trace (notifyListeners exHeapMachine 0 [''@a'', ''@b''] ''@c'' False ''leave'')) =
     [(UserCache (Some 2), OnNewEventCall 0 (NewEventData messageEvent ''!r'' 1))]"
    using p1 [of False "''leave''"]
    by (simp add: ex_defs exMachine_def receiverAt_def globalCalls_def DispatcherAllUsers_def)
  have c2: "callsTo ''@c'' (trace (notifyListeners exHeapMachine 0 [''@a'', ''@b''] ''@c'' False ''invite'')) = []"
    using p1 [of False "''invite''"]
    by (simp add: ex_defs exMachine_def receiverAt_def globalCalls_def DispatcherAllUsers_def)
  note p2 = invite_fallback_suppressed [THEN conjunct2, THEN mp, OF h2, of 1]
  from p2 n0 have c3: "callsTo ''@u'' (drop (length (trace exInvitee))
      (trace (OnNewEvent exInvitee ''!r'' (memberEvent ''@u'' ''invite'') 1))) = [] \<and>
   NumInvitedUsersForRoom (jrt (OnNewEvent exInvitee ''!r'' (memberEvent ''@u'' ''invite'') 1)) ''!r'' = 1"
    by simp
  from h1 h2 r c1 c2 c3 show ?thesis by blast
qed

text \<open>
  C6. In \<open>notifyListeners\<close> every user with a receiver is called with a pointer to a
  new object on the heap, a copy of the event data; the copy has \<open>ForceInitial\<close> set
  only if the user is the target user and the flag is asked for; the other copies and
  the global receiver's call carry the event data as it was. (The original is written
  to after the loop only, by the direct call for a target user the loop did not
  notify.) So, when a user with a
  receiver joins a room for the first time, \<open>OnNewEvent\<close> calls that user once, with a
  copy whose \<open>ForceInitial\<close> is true; and a following event that is not a membership
  event of this user reaches the user once, with \<open>ForceInitial\<close> false.
\<close>

theorem force_initial_on_copy:
  "(ed < length (heap s) \<longrightarrow>
      trace (notifyListeners s ed userIDs targetUser f membership) =
        trace s @ globalCalls (userToReceiver s) (OnNewEventCall ed (heap s ! ed)) @
        map (\<lambda>(q, u). Invoke u (receiverAt (userToReceiver s) u)
               (OnNewEventCall q (if targetUser = u \<and> f then (heap s ! ed)\<lparr>ForceInitial := True\<rparr>
                                  else heap s ! ed)))
          (enumerate (length (heap s)) (subscribed (userToReceiver s) userIDs)) @
        fallbackCalls (userToReceiver s) ed (heap s ! ed) (subscribed (userToReceiver s) userIDs)
          targetUser f membership \<and>
      heap (notifyListeners s ed userIDs targetUser f membership) =
        (if fallbackActive (subscribed (userToReceiver s) userIDs) targetUser membership \<and> f
         then (heap s) [ed := (heap s ! ed)\<lparr>ForceInitial := True\<rparr>] else heap s) @
        map (\<lambda>u. if targetUser = u \<and> f then (heap s ! ed)\<lparr>ForceInitial := True\<rparr> else heap s ! ed)
          (subscribed (userToReceiver s) userIDs)) \<and>
   (memberTarget event = Some U \<and> membershipOf event = ''join'' \<and> U \<noteq> DispatcherAllUsers \<and>
    U \<notin> set (joinedUsers (jrt s) roomID) \<and> receiverAt (userToReceiver s) U \<noteq> NilReceiver \<and>
    memberTarget event2 \<noteq> Some U \<longrightarrow>
      (\<exists>q v. callsTo U (drop (length (trace s)) (trace (OnNewEvent s roomID event nid))) =
                [(receiverAt (userToReceiver s) U, OnNewEventCall q v)] \<and>
              length (heap s) < q \<and> ForceInitial v \<and> Event v = event) \<and>
      (\<exists>q v. callsTo U (drop (length (trace (OnNewEvent s roomID event nid)))
                (trace (OnNewEvent (OnNewEvent s roomID event nid) roomID event2 nid2))) =
                [(receiverAt (userToReceiver s) U, OnNewEventCall q v)] \<and>
              length (heap (OnNewEvent s roomID event nid)) < q \<and> \<not> ForceInitial v \<and>
              Event v = event2))"
proof (intro conjI impI)
  assume ed: "ed < length (heap s)"
  show "trace (notifyListeners s ed userIDs targetUser f membership) =
        trace s @ globalCalls (userToReceiver s) (OnNewEventCall ed (heap s ! ed)) @
        map (\<lambda>(q, u). Invoke u (receiverAt (userToReceiver s) u)
               (OnNewEventCall q (if targetUser = u \<and> f then (heap s ! ed)\<lparr>ForceInitial := True\<rparr>
                                  else heap s ! ed)))
          (enumerate (length (heap s)) (subscribed (userToReceiver s) userIDs)) @
        fallbackCalls (userToReceiver s) ed (heap s ! ed) (subscribed (userToReceiver s) userIDs)
          targetUser f membership"
    using ed by (simp add: notifyListeners_eq Let_def loopCalls_def copyFor_def)
  show "heap (notifyListeners s ed userIDs targetUser f membership) =
        (if fallbackActive (subscribed (userToReceiver s) userIDs) targetUser membership \<and> f
         then (heap s) [ed := (heap s ! ed)\<lparr>ForceInitial := True\<rparr>] else heap s) @
        map (\<lambda>u. if targetUser = u \<and> f then (heap s ! ed)\<lparr>ForceInitial := True\<rparr> else heap s ! ed)
          (subscribed (userToReceiver s) userIDs)"
    using ed by (simp add: notifyListeners_eq Let_def copyFor_def cong: map_cong)
next
  assume a: "memberTarget event = Some U \<and> membershipOf event = ''join'' \<and> U \<noteq> DispatcherAllUsers \<and>
    U \<notin> set (joinedUsers (jrt s) roomID) \<and> receiverAt (userToReceiver s) U \<noteq> NilReceiver \<and>
    memberTarget event2 \<noteq> Some U"
  let ?t = "snd (UsersJoinedRoom (jrt s) [U] roomID)"
  let ?s1 = "OnNewEvent s roomID event nid"
  let ?reg = "userToReceiver s"
  from a have tgt: "memberTarget event = Some U" by simp
  from a have sw: "switchMembership (jrt s) (membershipOf event) U roomID = (True, ?t)"
    by (simp add: switchMembership_join)
  have jrt1: "jrt ?s1 = ?t" by (simp add: OnNewEvent_jrt tgt sw)
  have inaud: "U \<in> set (audience ?reg ?t roomID)"
    using a by (simp add: audience_set joined_after_join)
  let ?e = "(NewEventData event roomID nid)
         \<lparr>InviteCount := NumInvitedUsersForRoom ?t roomID, JoinCount := joinCountOf ?t roomID\<rparr>"
  from callsTo_loopCalls_in [OF audience_distinct inaud, of "Suc (length (heap s))" ?reg U True ?e]
  obtain q where q: "Suc (length (heap s)) \<le> q"
    "callsTo U (loopCalls ?reg U True ?e (Suc (length (heap s))) (audience ?reg ?t roomID)) =
       [(receiverAt ?reg U, OnNewEventCall q (copyFor U True ?e U))]"
    by blast
  have "callsTo U (drop (length (trace s)) (trace ?s1)) =
      [(receiverAt ?reg U, OnNewEventCall q (copyFor U True ?e U))]"
    using a inaud q
    by (simp add: OnNewEvent_trace_Some [OF tgt sw] callsTo_dispatchTrace callsTo_fallbackCalls
        fallbackActive_def)
  moreover have "ForceInitial (copyFor U True ?e U)" "Event (copyFor U True ?e U) = event"
    by (simp_all add: copyFor_def)
  moreover have "length (heap s) < q" using q by simp
  ultimately show "\<exists>q v. callsTo U (drop (length (trace s)) (trace ?s1)) =
                [(receiverAt ?reg U, OnNewEventCall q v)] \<and>
              length (heap s) < q \<and> ForceInitial v \<and> Event v = event"
    by blast
  show "\<exists>q v. callsTo U (drop (length (trace ?s1)) (trace (OnNewEvent ?s1 roomID event2 nid2))) =
                [(receiverAt ?reg U, OnNewEventCall q v)] \<and>
              length (heap ?s1) < q \<and> \<not> ForceInitial v \<and> Event v = event2"
  proof (cases "memberTarget event2")
    case None
    let ?e2 = "(NewEventData event2 roomID nid2)\<lparr>JoinCount := joinCountOf ?t roomID\<rparr>"
    from callsTo_loopCalls_in [OF audience_distinct inaud, of "Suc (length (heap ?s1))" ?reg "[]" False ?e2]
    obtain q where q: "Suc (length (heap ?s1)) \<le> q"
      "callsTo U (loopCalls ?reg [] False ?e2 (Suc (length (heap ?s1))) (audience ?reg ?t roomID)) =
         [(receiverAt ?reg U, OnNewEventCall q (copyFor [] False ?e2 U))]"
      by blast
    have "callsTo U (drop (length (trace ?s1)) (trace (OnNewEvent ?s1 roomID event2 nid2))) =
        [(receiverAt ?reg U, OnNewEventCall q (copyFor [] False ?e2 U))]"
      using a q
      by (simp add: OnNewEvent_trace_None [OF None] jrt1 callsTo_dispatchTrace callsTo_fallbackCalls
          fallbackActive_def)
    moreover have "\<not> ForceInitial (copyFor [] False ?e2 U)" "Event (copyFor [] False ?e2 U) = event2"
      by (simp_all add: copyFor_def)
    moreover have "length (heap ?s1) < q" using q by simp
    ultimately show ?thesis by blast
  next
    case (Some V)
    with a have VU: "V \<noteq> U" by auto
    obtain f2 t2 where sw2: "switchMembership (jrt ?s1) (membershipOf event2) V roomID = (f2, t2)"
      by (cases "switchMembership (jrt ?s1) (membershipOf event2) V roomID")
    have "U \<in> set (joinedUsers t2 roomID)"
      using joined_other [OF VU, of ?t "membershipOf event2" roomID] sw2 jrt1
      by (simp add: joined_after_join)
    then have inaud2: "U \<in> set (audience ?reg t2 roomID)"
      using a by (simp add: audience_set)
    let ?e2 = "(NewEventData event2 roomID nid2)
         \<lparr>InviteCount := NumInvitedUsersForRoom t2 roomID, JoinCount := joinCountOf t2 roomID\<rparr>"
    from callsTo_loopCalls_in [OF audience_distinct inaud2, of "Suc (length (heap ?s1))" ?reg V f2 ?e2]
    obtain q where q: "Suc (length (heap ?s1)) \<le> q"
      "callsTo U (loopCalls ?reg V f2 ?e2 (Suc (length (heap ?s1))) (audience ?reg t2 roomID)) =
         [(receiverAt ?reg U, OnNewEventCall q (copyFor V f2 ?e2 U))]"
      by blast
    have "callsTo U (drop (length (trace ?s1)) (trace (OnNewEvent ?s1 roomID event2 nid2))) =
        [(receiverAt ?reg U, OnNewEventCall q (copyFor V f2 ?e2 U))]"
      using a q VU
      by (simp add: OnNewEvent_trace_Some [OF Some sw2] callsTo_dispatchTrace callsTo_fallbackCalls)
    moreover have "\<not> ForceInitial (copyFor V f2 ?e2 U)" "Event (copyFor V f2 ?e2 U) = event2"
      using VU by (simp_all add: copyFor_def)
    moreover have "length (heap ?s1) < q" using q by simp
    ultimately show ?thesis by blast
  qed
qed

theorem force_initial_on_copy_witness:
  "0 < length (heap exHeapMachine) \<and>
   trace (notifyListeners exHeapMachine 0 [''@a'', ''@b'', ''@c''] ''@c'' True ''join'') =
     [Invoke ''-'' (GlobalCache (Some 0)) (OnNewEventCall 0 (NewEventData messageEvent ''!r'' 1)),
      Invoke ''@a'' (UserCache (Some 1)) (OnNewEventCall 1 (NewEventData messageEvent ''!r'' 1)),
      Invoke ''@c'' (UserCache (Some 2))
        (OnNewEventCall 2 ((NewEventData messageEvent ''!r'' 1)\<lparr>ForceInitial := True\<rparr>))] \<and>
   heap (notifyListeners exHeapMachine 0 [''@a'', ''@b'', ''@c''] ''@c'' True ''join'') =
     [NewEventData messageEvent ''!r'' 1, NewEventData messageEvent ''!r'' 1,
      (NewEventData messageEvent ''!r'' 1)\<lparr>ForceInitial := True\<rparr>] \<and>
   memberTarget (memberEvent ''@e'' ''join'') = Some ''@e'' \<and>
   membershipOf (memberEvent ''@e'' ''join'') = ''join'' \<and>
   ''@e'' \<noteq> DispatcherAllUsers \<and>
   ''@e'' \<notin> set (joinedUsers (jrt exJoiner) ''!r'') \<and>
   receiverAt (userToReceiver exJoiner) ''@e'' \<noteq> NilReceiver \<and>
   memberTarget messageEvent \<noteq> Some ''@e'' \<and>
   (\<exists>q v. callsTo ''@e'' (drop (length (trace exJoiner))
              (trace (OnNewEvent exJoiner ''!r'' (memberEvent ''@e'' ''join'') 1))) =
            [(UserCache (Some 3), OnNewEventCall q v)] \<and> ForceInitial v) \<and>
   (\<exists>q v. callsTo ''@e'' (drop (length (trace (OnNewEvent exJoiner ''!r'' (memberEvent ''@e'' ''join'') 1)))
              (trace (OnNewEvent (OnNewEvent exJoiner ''!r'' (memberEvent ''@e'' ''join'') 1) ''!r''
                 messageEvent 2))) =
            [(UserCache (Some 3), OnNewEventCall q v)] \<and> \<not> ForceInitial v)"
proof -
  have h1: "0 < length (heap exHeapMachine)" by (simp add: ex_defs)
  have h2: "memberTarget (memberEvent ''@e'' ''join'') = Some ''@e'' \<and>
     membershipOf (memberEvent ''@e'' ''join'') = ''join'' \<and>
     ''@e'' \<noteq> DispatcherAllUsers \<and>
     ''@e'' \<notin> set (joinedUsers (jrt exJoiner) ''!r'') \<and>
     receiverAt (userToReceiver exJoiner) ''@e'' \<noteq> NilReceiver \<and>
     memberTarget messageEvent \<noteq> Some ''@e''"
    by (simp add: exJoiner_def Register_def exMachine_def exTracker_def DispatcherAllUsers_def
        receiverAt_def)
  have r: "receiverAt (userToReceiver exJoiner) ''@e'' = UserCache (Some 3)"
    by (simp add: exJoiner_def Register_def exMachine_def receiverAt_def)
  note p1 = force_initial_on_copy [THEN conjunct1, THEN mp, OF h1,
      of "[''@a'', ''@b'', ''@c'']" "''@c''" True "''join''"]
  have c1: "trace (notifyListeners exHeapMachine 0 [''@a'', ''@b'', ''@c''] ''@c'' True ''join'') =
     [Invoke ''-'' (GlobalCache (Some 0)) (OnNewEventCall 0 (NewEventData messageEvent ''!r'' 1)),
      Invoke ''@a'' (UserCache (Some 1)) (OnNewEventCall 1 (NewEventData messageEvent ''!r'' 1)),
      Invoke ''@c'' (UserCache (Some 2))
        (OnNewEventCall 2 ((NewEventData messageEvent ''!r'' 1)\<lparr>ForceInitial := True\<rparr>))]"
    using p1 [THEN conjunct1]
    by (simp add: ex_defs exMachine_def receiverAt_def globalCalls_def fallbackCalls_def
        fallbackActive_def DispatcherAllUsers_def)
  have c2: "heap (notifyListeners exHeapMachine 0 [''@a'', ''@b'', ''@c''] ''@c'' True ''join'') =
     [NewEventData messageEvent ''!r'' 1, NewEventData messageEvent ''!r'' 1,
      (NewEventData messageEvent ''!r'' 1)\<lparr>ForceInitial := True\<rparr>]"
    using p1 [THEN conjunct2]
    by (simp add: ex_defs exMachine_def receiverAt_def fallbackActive_def)
  note p2 = force_initial_on_copy [THEN conjunct2, THEN mp, OF h2, of 1 2]
  from p2 [THEN conjunct1] r
  have c3: "\<exists>q v. callsTo ''@e'' (drop (length (trace exJoiner))
              (trace (OnNewEvent exJoiner ''!r'' (memberEvent ''@e'' ''join'') 1))) =
            [(UserCache (Some 3), OnNewEventCall q v)] \<and> ForceInitial v"
    by auto
  from p2 [THEN conjunct2] r
  have c4: "\<exists>q v. callsTo ''@e'' (drop (length (trace (OnNewEvent exJoiner ''!r'' (memberEvent ''@e'' ''join'') 1)))
              (trace (OnNewEvent (OnNewEvent exJoiner ''!r'' (memberEvent ''@e'' ''join'') 1) ''!r''
                 messageEvent 2))) =
            [(UserCache (Some 3), OnNewEventCall q v)] \<and> \<not> ForceInitial v"
    by auto
  from h1 h2 c1 c2 c3 c4 show ?thesis by blast
qed

end
